theory Spec2Isabelle
  imports Main "HOL-Library.Word" "HOL-Library.Sublist" "HOL-Library.AList"
begin

unbundle bit_operations_syntax

section \<open>Python values\<close>

text \<open>
  A Python \<open>str\<close> is a sequence of Unicode code points, so it is modelled as a list of
  natural numbers (a code point is below \<open>0x110000\<close>). \<open>py\<close> turns an ASCII literal of
  the source into such a sequence.
\<close>

type_synonym pystr = "nat list"

definition py :: "string \<Rightarrow> pystr" where
  "py s = map of_char s"

text \<open>The exceptions the script can meet; none of them is caught inside the loops.\<close>

datatype pyerr =
    UnicodeEncodeError
  | AttributeError
  | TypeError
  | KeyError
  | NameError
  | JSONDecodeError
  | DatabaseError
  | ClientError

text \<open>
  The values \<open>json.loads\<close> returns: \<open>None\<close>, \<open>bool\<close>, \<open>int\<close>, \<open>float\<close> (kept as its
  64-bit pattern, the script never computes with it), \<open>str\<close>, \<open>list\<close> and \<open>dict\<close>
  (insertion-ordered, keys unique).
\<close>

datatype json =
    JNull
  | JBool bool
  | JInt int
  | JFloat "64 word"
  | JStr pystr
  | JArr "json list"
  | JObj "(pystr \<times> json) list"

section \<open>\<open>str.encode()\<close>: UTF-8, strict\<close>

definition scalar_value :: "nat \<Rightarrow> bool" where
  "scalar_value c = (c < 0xD800 \<or> (0xDFFF < c \<and> c < 0x110000))"

fun utf8_char :: "nat \<Rightarrow> (8 word list) option" where
  "utf8_char c =
     (if c < 0x80 then Some [of_nat c]
      else if c < 0x800 then Some [of_nat (0xC0 + c div 0x40), of_nat (0x80 + c mod 0x40)]
      else if c < 0x10000 then
        (if 0xD800 \<le> c \<and> c \<le> 0xDFFF then None
         else Some [of_nat (0xE0 + c div 0x1000), of_nat (0x80 + c div 0x40 mod 0x40),
                    of_nat (0x80 + c mod 0x40)])
      else if c < 0x110000 then
        Some [of_nat (0xF0 + c div 0x40000), of_nat (0x80 + c div 0x1000 mod 0x40),
              of_nat (0x80 + c div 0x40 mod 0x40), of_nat (0x80 + c mod 0x40)]
      else None)"

fun encode :: "pystr \<Rightarrow> pyerr + 8 word list" where
  "encode [] = Inr []"
| "encode (c # cs) =
     (case utf8_char c of
        None \<Rightarrow> Inl UnicodeEncodeError
      | Some bs \<Rightarrow> (case encode cs of Inl e \<Rightarrow> Inl e | Inr rest \<Rightarrow> Inr (bs @ rest)))"

section \<open>\<open>hashlib.sha256\<close> and \<open>hexdigest\<close>\<close>

text \<open>SHA-256 as in FIPS 180-4, on bytes, with 32-bit words.\<close>

definition K256 :: "32 word list" where
  "K256 =
   [0x428A2F98, 0x71374491, 0xB5C0FBCF, 0xE9B5DBA5, 0x3956C25B, 0x59F111F1, 0x923F82A4, 0xAB1C5ED5,
    0xD807AA98, 0x12835B01, 0x243185BE, 0x550C7DC3, 0x72BE5D74, 0x80DEB1FE, 0x9BDC06A7, 0xC19BF174,
    0xE49B69C1, 0xEFBE4786, 0x0FC19DC6, 0x240CA1CC, 0x2DE92C6F, 0x4A7484AA, 0x5CB0A9DC, 0x76F988DA,
    0x983E5152, 0xA831C66D, 0xB00327C8, 0xBF597FC7, 0xC6E00BF3, 0xD5A79147, 0x06CA6351, 0x14292967,
    0x27B70A85, 0x2E1B2138, 0x4D2C6DFC, 0x53380D13, 0x650A7354, 0x766A0ABB, 0x81C2C92E, 0x92722C85,
    0xA2BFE8A1, 0xA81A664B, 0xC24B8B70, 0xC76C51A3, 0xD192E819, 0xD6990624, 0xF40E3585, 0x106AA070,
    0x19A4C116, 0x1E376C08, 0x2748774C, 0x34B0BCB5, 0x391C0CB3, 0x4ED8AA4A, 0x5B9CCA4F, 0x682E6FF3,
    0x748F82EE, 0x78A5636F, 0x84C87814, 0x8CC70208, 0x90BEFFFA, 0xA4506CEB, 0xBEF9A3F7, 0xC67178F2]"

type_synonym hstate = "32 word \<times> 32 word \<times> 32 word \<times> 32 word \<times> 32 word \<times> 32 word \<times> 32 word \<times> 32 word"

definition H256 :: hstate where
  "H256 = (0x6A09E667, 0xBB67AE85, 0x3C6EF372, 0xA54FF53A,
           0x510E527F, 0x9B05688C, 0x1F83D9AB, 0x5BE0CD19)"

definition rotr :: "nat \<Rightarrow> 32 word \<Rightarrow> 32 word" where
  "rotr n x = drop_bit n x OR push_bit (32 - n) x"

definition ssig0 :: "32 word \<Rightarrow> 32 word" where
  "ssig0 x = rotr 7 x XOR rotr 18 x XOR drop_bit 3 x"

definition ssig1 :: "32 word \<Rightarrow> 32 word" where
  "ssig1 x = rotr 17 x XOR rotr 19 x XOR drop_bit 10 x"

definition bsig0 :: "32 word \<Rightarrow> 32 word" where
  "bsig0 x = rotr 2 x XOR rotr 13 x XOR rotr 22 x"

definition bsig1 :: "32 word \<Rightarrow> 32 word" where
  "bsig1 x = rotr 6 x XOR rotr 11 x XOR rotr 25 x"

definition ch :: "32 word \<Rightarrow> 32 word \<Rightarrow> 32 word \<Rightarrow> 32 word" where
  "ch x y z = (x AND y) XOR (NOT x AND z)"

definition maj :: "32 word \<Rightarrow> 32 word \<Rightarrow> 32 word \<Rightarrow> 32 word" where
  "maj x y z = (x AND y) XOR (x AND z) XOR (y AND z)"

definition pad :: "8 word list \<Rightarrow> 8 word list" where
  "pad bs = bs @ [0x80] @ replicate ((119 - length bs mod 64) mod 64) 0
            @ map (\<lambda>i. of_nat (8 * length bs div 256 ^ (7 - i) mod 256)) [0..<8]"

fun be32 :: "8 word list \<Rightarrow> 32 word" where
  "be32 bs = foldl (\<lambda>acc b. push_bit 8 acc OR ucast b) 0 bs"

fun words_of :: "nat \<Rightarrow> 8 word list \<Rightarrow> 32 word list" where
  "words_of 0 bs = []"
| "words_of (Suc n) bs = be32 (take 4 bs) # words_of n (drop 4 bs)"

fun schedule :: "nat \<Rightarrow> 32 word list \<Rightarrow> 32 word list" where
  "schedule 0 w = w"
| "schedule (Suc n) w =
     schedule n (w @ [ssig1 (w ! (length w - 2)) + w ! (length w - 7)
                      + ssig0 (w ! (length w - 15)) + w ! (length w - 16)])"

fun round256 :: "hstate \<Rightarrow> 32 word \<times> 32 word \<Rightarrow> hstate" where
  "round256 (a, b, c, d, e, f, g, h) (k, w) =
     (let t1 = h + bsig1 e + ch e f g + k + w;
          t2 = bsig0 a + maj a b c
      in (t1 + t2, a, b, c, d + t1, e, f, g))"

fun add_state :: "hstate \<Rightarrow> hstate \<Rightarrow> hstate" where
  "add_state (a, b, c, d, e, f, g, h) (a', b', c', d', e', f', g', h') =
     (a + a', b + b', c + c', d + d', e + e', f + f', g + g', h + h')"

definition compress :: "hstate \<Rightarrow> 8 word list \<Rightarrow> hstate" where
  "compress hs block =
     add_state hs (foldl round256 hs (zip K256 (schedule 48 (words_of 16 block))))"

fun blocks :: "nat \<Rightarrow> hstate \<Rightarrow> 8 word list \<Rightarrow> hstate" where
  "blocks 0 hs bs = hs"
| "blocks (Suc n) hs bs = blocks n (compress hs (take 64 bs)) (drop 64 bs)"

fun state_words :: "hstate \<Rightarrow> 32 word list" where
  "state_words (a, b, c, d, e, f, g, h) = [a, b, c, d, e, f, g, h]"

definition bytes_of :: "32 word \<Rightarrow> 8 word list" where
  "bytes_of w = [ucast (drop_bit 24 w), ucast (drop_bit 16 w), ucast (drop_bit 8 w), ucast w]"

definition sha256 :: "8 word list \<Rightarrow> 8 word list" where
  "sha256 bs =
     concat (map bytes_of (state_words (blocks (length (pad bs) div 64) H256 (pad bs))))"

definition hex_digit :: "nat \<Rightarrow> nat" where
  "hex_digit d = (if d < 10 then 48 + d else 87 + d)"

definition hexdigest :: "8 word list \<Rightarrow> pystr" where
  "hexdigest bs = concat (map (\<lambda>b. [hex_digit (unat b div 16), hex_digit (unat b mod 16)]) bs)"


definition lower_hex :: "nat \<Rightarrow> bool" where
  "lower_hex c = ((48 \<le> c \<and> c \<le> 57) \<or> (97 \<le> c \<and> c \<le> 102))"

section \<open>\<open>mask_pii\<close>\<close>

text \<open>
  \<open>mask_pii(data)\<close> is \<open>hashlib.sha256(data.encode()).hexdigest()\<close>. Only a \<open>str\<close> has
  \<open>encode\<close> among the values \<open>json.loads\<close> produces, any other value raises
  \<open>AttributeError\<close>; \<open>encode\<close> raises \<open>UnicodeEncodeError\<close> on a surrogate.
\<close>

fun mask_pii :: "json \<Rightarrow> pyerr + pystr" where
  "mask_pii (JStr s) =
     (case encode s of Inl e \<Rightarrow> Inl e | Inr bs \<Rightarrow> Inr (hexdigest (sha256 bs)))"
| "mask_pii _ = Inl AttributeError"

section \<open>Operations on the parsed body\<close>

text \<open>
  \<open>k in body\<close>: key membership on a \<open>dict\<close>, element membership on a \<open>list\<close>, substring
  test on a \<open>str\<close>, \<open>TypeError\<close> on the other values.
\<close>

fun py_contains :: "pystr \<Rightarrow> json \<Rightarrow> pyerr + bool" where
  "py_contains k (JObj kvs) = Inr (map_of kvs k \<noteq> None)"
| "py_contains k (JArr xs) = Inr (JStr k \<in> set xs)"
| "py_contains k (JStr s) = Inr (sublist k s)"
| "py_contains k _ = Inl TypeError"

text \<open>\<open>body[k]\<close> with a \<open>str\<close> key.\<close>

fun py_getitem :: "json \<Rightarrow> pystr \<Rightarrow> pyerr + json" where
  "py_getitem (JObj kvs) k = (case map_of kvs k of None \<Rightarrow> Inl KeyError | Some v \<Rightarrow> Inr v)"
| "py_getitem _ k = Inl TypeError"

text \<open>\<open>body[k] = v\<close>: a present key keeps its place, a new key goes last.\<close>

fun py_setitem :: "json \<Rightarrow> pystr \<Rightarrow> json \<Rightarrow> pyerr + json" where
  "py_setitem (JObj kvs) k v = Inr (JObj (AList.update k v kvs))"
| "py_setitem _ k v = Inl TypeError"

text \<open>\<open>body.get(k, None)\<close>: only a \<open>dict\<close> has \<open>get\<close>.\<close>

fun py_get :: "json \<Rightarrow> pystr \<Rightarrow> pyerr + json" where
  "py_get (JObj kvs) k = Inr (case map_of kvs k of None \<Rightarrow> JNull | Some v \<Rightarrow> v)"
| "py_get _ k = Inl AttributeError"

text \<open>
  \<open>if k in message_body: message_body[k] = mask_pii(message_body[k])\<close>, the shape of
  both masking statements of the loop.
\<close>

definition mask_field :: "pystr \<Rightarrow> json \<Rightarrow> pyerr + json" where
  "mask_field k body =
     (case py_contains k body of
        Inl e \<Rightarrow> Inl e
      | Inr present \<Rightarrow>
          if present then
            (case py_getitem body k of
               Inl e \<Rightarrow> Inl e
             | Inr v \<Rightarrow> (case mask_pii v of Inl e \<Rightarrow> Inl e | Inr h \<Rightarrow> py_setitem body k (JStr h)))
          else Inr body)"

text \<open>
  The loop body from the first masking statement to the read of \<open>app_version\<close>: the
  masked body and the value of \<open>app_version\<close>.
\<close>

definition mask_body :: "json \<Rightarrow> pyerr + (json \<times> json)" where
  "mask_body body =
     (case mask_field (py ''device_id'') body of
        Inl e \<Rightarrow> Inl e
      | Inr b1 \<Rightarrow>
          (case mask_field (py ''ip'') b1 of
             Inl e \<Rightarrow> Inl e
           | Inr b2 \<Rightarrow>
               (case py_get b2 (py ''app_version'') of
                  Inl e \<Rightarrow> Inl e
                | Inr app_version \<Rightarrow> Inr (b2, app_version))))"

text \<open>The tuple \<open>data\<close> of the six parameters of the insert.\<close>

definition data :: "json \<Rightarrow> json \<Rightarrow> pyerr + json list" where
  "data message_body app_version =
     (case py_get message_body (py ''user_id'') of Inl e \<Rightarrow> Inl e | Inr user_id \<Rightarrow>
      case py_get message_body (py ''device_type'') of Inl e \<Rightarrow> Inl e | Inr device_type \<Rightarrow>
      case py_get message_body (py ''ip'') of Inl e \<Rightarrow> Inl e | Inr ip \<Rightarrow>
      case py_get message_body (py ''device_id'') of Inl e \<Rightarrow> Inl e | Inr device_id \<Rightarrow>
      case py_get message_body (py ''locale'') of Inl e \<Rightarrow> Inl e | Inr locale \<Rightarrow>
      Inr [user_id, device_type, ip, device_id, locale, app_version])"

section \<open>The statements sent to the store\<close>

text \<open>
  A value of an insert is a \<open>%s\<close> placeholder, filled from the parameters in order, or
  the SQL expression \<open>CURRENT_DATE\<close>.
\<close>

datatype sqlexpr = Param | CurrentDate

datatype stmt =
    AlterColumnType string string string
  | InsertInto string "string list" "sqlexpr list"

definition alter_column_query :: stmt where
  "alter_column_query = AlterColumnType ''user_logins'' ''app_version'' ''VARCHAR''"

definition insert_query :: stmt where
  "insert_query =
     InsertInto ''user_logins''
       [''user_id'', ''device_type'', ''masked_ip'', ''masked_device_id'', ''locale'',
        ''app_version'', ''create_date'']
       [Param, Param, Param, Param, Param, Param, CurrentDate]"

text \<open>
  What the store makes of an insert: a cell per column, a parameter passed through or
  the store's current date (a day number). Too few or too many parameters is an error.
\<close>

datatype cell = Val json | Date nat

fun fill :: "nat \<Rightarrow> sqlexpr list \<Rightarrow> json list \<Rightarrow> cell list option" where
  "fill today [] [] = Some []"
| "fill today [] (p # ps) = None"
| "fill today (CurrentDate # es) ps = map_option ((#) (Date today)) (fill today es ps)"
| "fill today (Param # es) [] = None"
| "fill today (Param # es) (p # ps) = map_option ((#) (Val p)) (fill today es ps)"

fun row_of :: "nat \<Rightarrow> stmt \<Rightarrow> json list \<Rightarrow> (string \<times> cell) list option" where
  "row_of today (InsertInto t cols es) ps =
     (if length cols = length es then map_option (zip cols) (fill today es ps) else None)"
| "row_of today (AlterColumnType t c ty) ps = None"

section \<open>The queue, the store and the trace of calls\<close>

text \<open>
  A message of a response of \<open>receive_message\<close>; the queue supplies both keys.
\<close>

record message =
  Body :: pystr
  ReceiptHandle :: pystr

text \<open>
  A response of \<open>receive_message\<close>: the call raised, the response has no key
  \<open>Messages\<close>, or it has one.
\<close>

datatype response = RecvRaised | NoMessages | Messages "message list"

text \<open>The lines the script prints.\<close>

datatype printed =
    OutConnected
  | OutConnectError
  | OutColumnAltered
  | OutAlterError pyerr
  | OutMasked json
  | OutClosed

text \<open>
  The calls the script makes, in order, each with its outcome. \<open>Execute q ps r\<close>:
  \<open>cursor.execute(q, ps)\<close> raised (\<open>r = None\<close>) or ran on the day \<open>d\<close> of the store
  (\<open>r = Some d\<close>). \<open>Parse body ok\<close>: \<open>json.loads(body)\<close> returned or raised.
\<close>

datatype event =
    Connect bool
  | Print printed
  | Execute stmt "json list" "nat option"
  | Commit bool
  | Receive nat response
  | Parse pystr bool
  | Delete pystr bool
  | CloseCursor
  | CloseConnection

text \<open>
  The world outside the script: each call is answered from the calls made so far.
\<close>

record env =
  connect_ok :: bool
  run_sql :: "event list \<Rightarrow> stmt \<Rightarrow> json list \<Rightarrow> nat option"
  commit_ok :: "event list \<Rightarrow> bool"
  receive_message :: "event list \<Rightarrow> response"
  loads :: "pystr \<Rightarrow> json option"
  delete_ok :: "event list \<Rightarrow> pystr \<Rightarrow> bool"

section \<open>The script\<close>

text \<open>
  Connecting: on failure the names \<open>connection\<close> and \<open>cursor\<close> stay unbound, which the
  flag of the result records.
\<close>

definition connect_step :: "env \<Rightarrow> event list \<times> bool" where
  "connect_step w =
     (if connect_ok w then ([Connect True, Print OutConnected], True)
      else ([Connect False, Print OutConnectError], False))"

text \<open>The \<open>ALTER TABLE\<close> block: every exception is caught and printed.\<close>

definition alter_step :: "env \<Rightarrow> bool \<Rightarrow> event list \<Rightarrow> event list" where
  "alter_step w bound tr =
     (if \<not> bound then tr @ [Print (OutAlterError NameError)]
      else
        (case run_sql w tr alter_column_query [] of
           None \<Rightarrow> tr @ [Execute alter_column_query [] None, Print (OutAlterError DatabaseError)]
         | Some d \<Rightarrow>
             (if commit_ok w (tr @ [Execute alter_column_query [] (Some d)])
              then tr @ [Execute alter_column_query [] (Some d), Commit True,
                         Print OutColumnAltered]
              else tr @ [Execute alter_column_query [] (Some d), Commit False,
                         Print (OutAlterError DatabaseError)])))"

text \<open>
  The receive loop: \<open>while True\<close>, left only by a response without \<open>Messages\<close> or by an
  exception. It need not end, so its result is optional.
\<close>

partial_function (option) receive_loop ::
  "env \<Rightarrow> event list \<Rightarrow> message list \<Rightarrow> (event list \<times> (pyerr + message list)) option" where
  "receive_loop w tr messages =
     (case receive_message w tr of
        RecvRaised \<Rightarrow> Some (tr @ [Receive 10 RecvRaised], Inl ClientError)
      | NoMessages \<Rightarrow> Some (tr @ [Receive 10 NoMessages], Inr messages)
      | Messages ms \<Rightarrow> receive_loop w (tr @ [Receive 10 (Messages ms)]) (messages @ ms))"

declare receive_loop.simps [code]

text \<open>One turn of the \<open>for\<close> loop: the trace after it and the exception it raised, if any.\<close>

definition process_message ::
  "env \<Rightarrow> bool \<Rightarrow> event list \<Rightarrow> message \<Rightarrow> event list \<times> pyerr option" where
  "process_message w bound tr m =
     (case loads w (Body m) of
        None \<Rightarrow> (tr @ [Parse (Body m) False], Some JSONDecodeError)
      | Some message_body \<Rightarrow>
          (case mask_body message_body of
             Inl e \<Rightarrow> (tr @ [Parse (Body m) True], Some e)
           | Inr (masked, app_version) \<Rightarrow>
               (case data masked app_version of
                  Inl e \<Rightarrow> (tr @ [Parse (Body m) True, Print (OutMasked masked)], Some e)
                | Inr ps \<Rightarrow>
                    (let tr1 = tr @ [Parse (Body m) True, Print (OutMasked masked)] in
                     if \<not> bound then (tr1, Some NameError)
                     else
                       (case run_sql w tr1 insert_query ps of
                          None \<Rightarrow> (tr1 @ [Execute insert_query ps None], Some DatabaseError)
                        | Some d \<Rightarrow>
                            (let tr2 = tr1 @ [Execute insert_query ps (Some d)] in
                             if \<not> commit_ok w tr2 then (tr2 @ [Commit False], Some DatabaseError)
                             else
                               (let tr3 = tr2 @ [Commit True] in
                                if delete_ok w tr3 (ReceiptHandle m)
                                then (tr3 @ [Delete (ReceiptHandle m) True], None)
                                else (tr3 @ [Delete (ReceiptHandle m) False],
                                      Some ClientError))))))))"

text \<open>The \<open>for\<close> loop: an exception ends the loop and the script.\<close>

fun process_all ::
  "env \<Rightarrow> bool \<Rightarrow> event list \<Rightarrow> message list \<Rightarrow> event list \<times> pyerr option" where
  "process_all w bound tr [] = (tr, None)"
| "process_all w bound tr (m # ms) =
     (case process_message w bound tr m of
        (tr', Some e) \<Rightarrow> (tr', Some e)
      | (tr', None) \<Rightarrow> process_all w bound tr' ms)"

text \<open>The last block: \<open>if connection:\<close> raises when the name is unbound.\<close>

definition close_step :: "bool \<Rightarrow> event list \<Rightarrow> event list \<times> pyerr option" where
  "close_step bound tr =
     (if bound then (tr @ [CloseCursor, CloseConnection, Print OutClosed], None)
      else (tr, Some NameError))"

text \<open>
  The whole script: the trace of its calls and the exception that ended it, if any;
  \<open>None\<close> when the receive loop never ends.
\<close>

definition main :: "env \<Rightarrow> (event list \<times> pyerr option) option" where
  "main w =
     (case connect_step w of
        (tr0, bound) \<Rightarrow>
          (case receive_loop w (alter_step w bound tr0) [] of
             None \<Rightarrow> None
           | Some (tr2, Inl e) \<Rightarrow> Some (tr2, Some e)
           | Some (tr2, Inr messages) \<Rightarrow>
               (case process_all w bound tr2 messages of
                  (tr3, Some e) \<Rightarrow> Some (tr3, Some e)
                | (tr3, None) \<Rightarrow> Some (close_step bound tr3))))"

section \<open>Notions used to state the properties\<close>

text \<open>The value a masked column is to hold for a field of the body, absent or present.\<close>

definition masked_of :: "json option \<Rightarrow> pyerr + json" where
  "masked_of field =
     (case field of
        None \<Rightarrow> Inr JNull
      | Some v \<Rightarrow> (case mask_pii v of Inl e \<Rightarrow> Inl e | Inr h \<Rightarrow> Inr (JStr h)))"

text \<open>The value a column passed through is to hold for a field of the body.\<close>

definition passed_of :: "json option \<Rightarrow> json" where
  "passed_of field = (case field of None \<Rightarrow> JNull | Some v \<Rightarrow> v)"

fun is_receive :: "event \<Rightarrow> bool" where
  "is_receive (Receive n r) = True"
| "is_receive _ = False"

text \<open>
  The store as the script's calls leave it: rows inserted on the connection are pending
  until a commit; a statement that raises, a failed commit and closing the connection
  drop the pending rows. The state is the pair of the pending rows and the table.
\<close>

type_synonym row = "(string \<times> cell) list"

fun store_step :: "row list \<times> row list \<Rightarrow> event \<Rightarrow> row list \<times> row list" where
  "store_step (pending, table) (Execute q ps (Some today)) =
     (case row_of today q ps of None \<Rightarrow> (pending, table) | Some r \<Rightarrow> (pending @ [r], table))"
| "store_step (pending, table) (Execute q ps None) = ([], table)"
| "store_step (pending, table) (Commit ok) = ([], if ok then table @ pending else table)"
| "store_step (pending, table) CloseConnection = ([], table)"
| "store_step (pending, table) _ = (pending, table)"

definition table_after :: "row list \<Rightarrow> event list \<Rightarrow> row list" where
  "table_after table tr = snd (foldl store_step ([], table) tr)"

text \<open>The receipt handles \<open>delete_message\<close> was called with, in order.\<close>

fun delete_calls :: "event list \<Rightarrow> pystr list" where
  "delete_calls [] = []"
| "delete_calls (Delete h ok # es) = h # delete_calls es"
| "delete_calls (_ # es) = delete_calls es"

text \<open>The messages the queue handed out, in order.\<close>

fun received :: "event list \<Rightarrow> message list" where
  "received [] = []"
| "received (Receive n (Messages ms) # es) = ms @ received es"
| "received (_ # es) = received es"

text \<open>The lines printed, in order.\<close>

fun printed_lines :: "event list \<Rightarrow> printed list" where
  "printed_lines [] = []"
| "printed_lines (Print l # es) = l # printed_lines es"
| "printed_lines (_ # es) = printed_lines es"

text \<open>The parameters of the insert that belong to a message, when its body gives any.\<close>

definition record_of :: "env \<Rightarrow> message \<Rightarrow> json list option" where
  "record_of w m =
     (case loads w (Body m) of
        None \<Rightarrow> None
      | Some body \<Rightarrow>
          (case mask_body body of
             Inl e \<Rightarrow> None
           | Inr (masked, app_version) \<Rightarrow>
               (case data masked app_version of Inl e \<Rightarrow> None | Inr ps \<Rightarrow> Some ps)))"

text \<open>A row of the table is the record of a message, inserted on some day.\<close>

definition row_for :: "env \<Rightarrow> row \<Rightarrow> message \<Rightarrow> bool" where
  "row_for w r m =
     (\<exists>ps today. record_of w m = Some ps \<and> row_of today insert_query ps = Some r)"

text \<open>
  A monitor for the order of the calls: a delete is allowed only right after a commit
  that succeeded right after an insert that succeeded.
\<close>

datatype ack_state = Idle | Inserted | Committed | Violated

fun ack_step :: "ack_state \<Rightarrow> event \<Rightarrow> ack_state" where
  "ack_step Violated e = Violated"
| "ack_step st (Execute q ps res) = (if q = insert_query \<and> res \<noteq> None then Inserted else Idle)"
| "ack_step st (Commit ok) = (if ok \<and> st = Inserted then Committed else Idle)"
| "ack_step st (Delete h ok) = (if st = Committed then Idle else Violated)"
| "ack_step st e = Idle"

definition acks_follow_commits :: "event list \<Rightarrow> bool" where
  "acks_follow_commits tr = (foldl ack_step Idle tr \<noteq> Violated)"

text \<open>The events of the work on a message: parse, insert, delete.\<close>

fun is_work :: "event \<Rightarrow> bool" where
  "is_work (Parse body ok) = True"
| "is_work (Execute q ps res) = (q = insert_query)"
| "is_work (Delete h ok) = True"
| "is_work _ = False"

text \<open>A receive that asked for at most ten messages; one that returned messages.\<close>

fun is_receive10 :: "event \<Rightarrow> bool" where
  "is_receive10 (Receive n r) = (n = 10)"
| "is_receive10 _ = False"

fun is_batch :: "event \<Rightarrow> bool" where
  "is_batch (Receive n (Messages ms)) = True"
| "is_batch _ = False"

text \<open>The trace up to the first call of \<open>receive_message\<close>.\<close>

definition startup :: "env \<Rightarrow> event list" where
  "startup w = (case connect_step w of (tr0, bound) \<Rightarrow> alter_step w bound tr0)"

text \<open>What the receive loop leaves: the trace grown by receives, the last one ending the loop.\<close>

definition recv_post :: "event list \<Rightarrow> message list \<Rightarrow> event list \<times> (pyerr + message list) \<Rightarrow> bool" where
  "recv_post tr acc y =
     (\<exists>rs. fst y = tr @ rs \<and> rs \<noteq> [] \<and> list_all is_receive10 rs \<and> list_all is_batch (butlast rs)
           \<and> (case snd y of
                 Inl e \<Rightarrow> e = ClientError \<and> last rs = Receive 10 RecvRaised
               | Inr ms \<Rightarrow> ms = acc @ received rs \<and> last rs = Receive 10 NoMessages))"

text \<open>What one turn of the loop over the messages adds to the trace.\<close>

definition message_post :: "env \<Rightarrow> message \<Rightarrow> event list \<Rightarrow> pyerr option \<Rightarrow> bool" where
  "message_post w m seg r =
     (list_all (\<lambda>e. \<not> is_receive e) seg
      \<and> (\<exists>bodies. printed_lines seg = map OutMasked bodies \<and> length bodies \<le> 1)
      \<and> (\<forall>st. st \<noteq> Violated \<longrightarrow> foldl ack_step st seg \<noteq> Violated)
      \<and> ((r \<noteq> None \<and> delete_calls seg = []
            \<and> (\<forall>table. foldl store_step ([], table) seg = ([], table)))
          \<or> (delete_calls seg = [ReceiptHandle m]
              \<and> (\<forall>table. \<exists>row. foldl store_step ([], table) seg = ([], table @ [row])
                     \<and> row_for w row m))))"

text \<open>What the loop over the messages adds to the trace.\<close>

definition loop_post :: "env \<Rightarrow> message list \<Rightarrow> event list \<Rightarrow> bool" where
  "loop_post w msgs seg =
     (list_all (\<lambda>e. \<not> is_receive e) seg
      \<and> (\<exists>bodies. printed_lines seg = map OutMasked bodies \<and> length bodies \<le> length msgs)
      \<and> (\<forall>st. st \<noteq> Violated \<longrightarrow> foldl ack_step st seg \<noteq> Violated)
      \<and> (\<exists>j\<le>length msgs. delete_calls seg = map ReceiptHandle (take j msgs)
            \<and> (\<forall>table. \<exists>rows. foldl store_step ([], table) seg = ([], table @ rows)
                   \<and> list_all2 (row_for w) rows (take j msgs))))"

section \<open>Sample runs\<close>

text \<open>
  \<open>json.loads\<close> on the three bodies used below; the body \<open>{\<close> is not JSON.
\<close>

definition demo_loads :: "pystr \<Rightarrow> json option" where
  \<open>demo_loads s =
     (if s = py ''{}'' then Some (JObj [])
      else if s = py ''{"ip": "1.2.3.4", "app_version": "3.1"}''
      then Some (JObj [(py ''ip'', JStr (py ''1.2.3.4'')), (py ''app_version'', JStr (py ''3.1''))])
      else None)\<close>

text \<open>
  A queue holding three messages, the second with a body that does not parse; store
  and queue answer every call with success.
\<close>

definition batch3 :: env where
  "batch3 =
     \<lparr>connect_ok = True,
      run_sql = (\<lambda>tr q ps. Some 19000),
      commit_ok = (\<lambda>tr. True),
      receive_message = (\<lambda>tr. if list_ex is_receive tr then NoMessages
         else Messages [\<lparr>Body = py ''{}'', ReceiptHandle = py ''h1''\<rparr>,
                        \<lparr>Body = py ''{'', ReceiptHandle = py ''h2''\<rparr>,
                        \<lparr>Body = py ''{}'', ReceiptHandle = py ''h3''\<rparr>]),
      loads = demo_loads,
      delete_ok = (\<lambda>tr h. True)\<rparr>"

text \<open>An empty queue; store and queue answer every call with success.\<close>

definition idle :: env where
  "idle =
     \<lparr>connect_ok = True,
      run_sql = (\<lambda>tr q ps. Some 19000),
      commit_ok = (\<lambda>tr. True),
      receive_message = (\<lambda>tr. NoMessages),
      loads = demo_loads,
      delete_ok = (\<lambda>tr h. True)\<rparr>"

definition login_message :: message where
  \<open>login_message =
     \<lparr>Body = py ''{"ip": "1.2.3.4", "app_version": "3.1"}'', ReceiptHandle = py ''h0''\<rparr>\<close>

text \<open>
  A message whose \<open>ip\<close> is a number and which has no \<open>device_id\<close>, and a world whose
  \<open>json.loads\<close> parses its body; store and queue answer every call with success.
\<close>

definition numeric_ip_message :: message where
  \<open>numeric_ip_message = \<lparr>Body = py ''{"ip": 7}'', ReceiptHandle = py ''h7''\<rparr>\<close>

definition numeric_ip :: env where
  \<open>numeric_ip =
     \<lparr>connect_ok = True,
      run_sql = (\<lambda>tr q ps. Some 19000),
      commit_ok = (\<lambda>tr. True),
      receive_message = (\<lambda>tr. NoMessages),
      loads = (\<lambda>s. if s = py ''{"ip": 7}'' then Some (JObj [(py ''ip'', JInt 7)]) else None),
      delete_ok = (\<lambda>tr h. True)\<rparr>\<close>

section \<open>Masking\<close>

lemma utf8_char_scalar: "scalar_value c \<Longrightarrow> \<exists>bs. utf8_char c = Some bs"
  by (auto simp add: scalar_value_def)

lemma utf8_char_not_scalar: "\<not> scalar_value c \<Longrightarrow> utf8_char c = None"
  by (auto simp add: scalar_value_def)

lemma encode_scalar: "list_all scalar_value s \<Longrightarrow> \<exists>bs. encode s = Inr bs"
proof (induction s)
  case Nil
  show ?case by simp
next
  case (Cons c cs)
  from Cons.prems obtain b where b: "utf8_char c = Some b"
    using utf8_char_scalar by auto
  from Cons obtain r where r: "encode cs = Inr r" by auto
  show ?case using b r by (simp del: utf8_char.simps)
qed

lemma encode_surrogate: "\<not> list_all scalar_value s \<Longrightarrow> encode s = Inl UnicodeEncodeError"
proof (induction s)
  case Nil
  then show ?case by simp
next
  case (Cons c cs)
  show ?case
  proof (cases "scalar_value c")
    case True
    then obtain b where b: "utf8_char c = Some b" using utf8_char_scalar by auto
    from True Cons have "encode cs = Inl UnicodeEncodeError" by simp
    then show ?thesis using b by (simp del: utf8_char.simps)
  next
    case False
    then show ?thesis using utf8_char_not_scalar [of c] by (simp del: utf8_char.simps)
  qed
qed

lemma length_state_words: "length (state_words st) = 8"
  by (induct st rule: state_words.induct) simp

lemma length_sha256: "length (sha256 bs) = 32"
proof -
  have "\<And>ws. length (concat (map bytes_of ws)) = 4 * length ws"
  proof -
    fix ws show "length (concat (map bytes_of ws)) = 4 * length ws"
      by (induction ws) (simp_all add: bytes_of_def)
  qed
  then show ?thesis by (simp add: sha256_def length_state_words)
qed

lemma length_hexdigest: "length (hexdigest bs) = 2 * length bs"
  by (induction bs) (simp_all add: hexdigest_def)

lemma hex_digit_lower: "d < 16 \<Longrightarrow> lower_hex (hex_digit d)"
  by (auto simp add: lower_hex_def hex_digit_def)

lemma unat_byte_div: "unat (b :: 8 word) div 16 < 16"
proof -
  have "unat b < 2 ^ LENGTH(8)" by (rule unsigned_less)
  then have "unat b < 256" by simp
  then show ?thesis by simp
qed

lemma hexdigest_lower: "list_all lower_hex (hexdigest bs)"
  by (induction bs) (simp_all add: hexdigest_def hex_digit_lower unat_byte_div)

text \<open>
  C4 (amended). For every string without a surrogate code point, the empty string
  included, \<open>mask_pii\<close> returns, without an exception, the hexadecimal form of the
  SHA-256 digest of the UTF-8 encoding of the string: 64 characters, each a digit or a
  lower-case letter from a to f. Being a function of its argument, it is deterministic.
\<close>

theorem mask_pii_sha256_hex:
  "list_all scalar_value s \<Longrightarrow>
     \<exists>bs. encode s = Inr bs \<and> mask_pii (JStr s) = Inr (hexdigest (sha256 bs))
          \<and> length (hexdigest (sha256 bs)) = 64 \<and> list_all lower_hex (hexdigest (sha256 bs))"
proof -
  assume "list_all scalar_value s"
  then obtain bs where bs: "encode s = Inr bs" using encode_scalar by blast
  have "mask_pii (JStr s) = Inr (hexdigest (sha256 bs))" using bs by simp
  moreover have "length (hexdigest (sha256 bs)) = 64"
    by (simp add: length_hexdigest length_sha256)
  ultimately show ?thesis using bs hexdigest_lower by blast
qed

text \<open>The string \<open>d1\<close> is such a string.\<close>

theorem mask_pii_sha256_hex_witness:
  "list_all scalar_value (py ''d1'') \<and>
     (\<exists>bs. encode (py ''d1'') = Inr bs \<and> mask_pii (JStr (py ''d1'')) = Inr (hexdigest (sha256 bs))
          \<and> length (hexdigest (sha256 bs)) = 64 \<and> list_all lower_hex (hexdigest (sha256 bs)))"
proof -
  have h: "list_all scalar_value (py ''d1'')" by (simp add: py_def scalar_value_def)
  show ?thesis using h mask_pii_sha256_hex [OF h] by blast
qed

text \<open>
  C4 as stated fails: the string made of the lone surrogate U+D800 (the value
  \<open>json.loads\<close> gives for the JSON text \<open>"\ud800"\<close>) has no UTF-8 encoding and
  \<open>mask_pii\<close> raises \<open>UnicodeEncodeError\<close>.
\<close>

theorem mask_pii_surrogate_counterexample:
  "mask_pii (JStr [0xD800]) = Inl UnicodeEncodeError"
  by simp

section \<open>Building the record\<close>

lemma py_keys_distinct:
  "py ''device_id'' \<noteq> py ''ip''" "py ''ip'' \<noteq> py ''device_id''"
  "py ''app_version'' \<noteq> py ''ip''" "py ''app_version'' \<noteq> py ''device_id''"
  "py ''user_id'' \<noteq> py ''ip''" "py ''user_id'' \<noteq> py ''device_id''"
  "py ''device_type'' \<noteq> py ''ip''" "py ''device_type'' \<noteq> py ''device_id''"
  "py ''locale'' \<noteq> py ''ip''" "py ''locale'' \<noteq> py ''device_id''"
  by (simp_all add: py_def)

lemma mask_field_obj:
  "mask_field k (JObj kvs) =
     (case map_of kvs k of
        None \<Rightarrow> Inr (JObj kvs)
      | Some v \<Rightarrow> (case mask_pii v of Inl e \<Rightarrow> Inl e
                   | Inr h \<Rightarrow> Inr (JObj (AList.update k (JStr h) kvs))))"
  by (simp add: mask_field_def split: option.splits sum.splits)

lemma mask_field_obj_ok:
  assumes "masked_of (map_of kvs k) = Inr c"
  shows "\<exists>kvs'. mask_field k (JObj kvs) = Inr (JObj kvs')
           \<and> passed_of (map_of kvs' k) = c
           \<and> (\<forall>k'. k' \<noteq> k \<longrightarrow> map_of kvs' k' = map_of kvs k')"
  using assms
  by (auto simp add: mask_field_obj masked_of_def passed_of_def update_conv'
      split: option.splits sum.splits)

lemma mask_field_obj_inv:
  assumes "mask_field k (JObj kvs) = Inr b"
  shows "\<exists>kvs'. b = JObj kvs' \<and> masked_of (map_of kvs k) = Inr (passed_of (map_of kvs' k))
           \<and> (\<forall>k'. k' \<noteq> k \<longrightarrow> map_of kvs' k' = map_of kvs k')"
proof (cases "map_of kvs k")
  case None
  then have "b = JObj kvs" using assms by (simp add: mask_field_obj)
  then show ?thesis using None by (simp add: masked_of_def passed_of_def)
next
  case (Some v)
  then obtain h where h: "mask_pii v = Inr h" and b: "b = JObj (AList.update k (JStr h) kvs)"
    using assms by (auto simp add: mask_field_obj split: sum.splits)
  have "masked_of (map_of kvs k) = Inr (passed_of (map_of (AList.update k (JStr h) kvs) k))"
    using Some h by (simp add: masked_of_def passed_of_def update_conv')
  moreover have "\<forall>k'. k' \<noteq> k \<longrightarrow> map_of (AList.update k (JStr h) kvs) k' = map_of kvs k'"
    by (simp add: update_conv')
  ultimately show ?thesis using b by blast
qed

lemma data_obj:
  "data (JObj kvs) av =
     Inr [passed_of (map_of kvs (py ''user_id'')), passed_of (map_of kvs (py ''device_type'')),
          passed_of (map_of kvs (py ''ip'')), passed_of (map_of kvs (py ''device_id'')),
          passed_of (map_of kvs (py ''locale'')), av]"
  by (simp add: data_def passed_of_def)

lemma mask_body_obj_inv:
  assumes "mask_body (JObj kvs) = Inr (mb, av)"
  shows "\<exists>c1 c2. masked_of (map_of kvs (py ''device_id'')) = Inr c1
           \<and> masked_of (map_of kvs (py ''ip'')) = Inr c2
           \<and> av = passed_of (map_of kvs (py ''app_version''))
           \<and> data mb av =
               Inr [passed_of (map_of kvs (py ''user_id'')),
                    passed_of (map_of kvs (py ''device_type'')), c2, c1,
                    passed_of (map_of kvs (py ''locale'')),
                    passed_of (map_of kvs (py ''app_version''))]"
proof -
  from assms obtain b1 where b1: "mask_field (py ''device_id'') (JObj kvs) = Inr b1"
    by (auto simp add: mask_body_def split: sum.splits)
  from mask_field_obj_inv [OF b1] obtain kvs1 where k1: "b1 = JObj kvs1"
    "masked_of (map_of kvs (py ''device_id'')) = Inr (passed_of (map_of kvs1 (py ''device_id'')))"
    "\<forall>k'. k' \<noteq> py ''device_id'' \<longrightarrow> map_of kvs1 k' = map_of kvs k'"
    by blast
  from assms b1 obtain b2 where b2: "mask_field (py ''ip'') b1 = Inr b2"
    by (auto simp add: mask_body_def split: sum.splits)
  from mask_field_obj_inv [OF b2 [unfolded k1(1)]] obtain kvs2 where k2: "b2 = JObj kvs2"
    "masked_of (map_of kvs1 (py ''ip'')) = Inr (passed_of (map_of kvs2 (py ''ip'')))"
    "\<forall>k'. k' \<noteq> py ''ip'' \<longrightarrow> map_of kvs2 k' = map_of kvs1 k'"
    by blast
  from assms b1 b2 k2(1) have mb: "mb = JObj kvs2"
    and av: "av = passed_of (map_of kvs2 (py ''app_version''))"
    by (auto simp add: mask_body_def passed_of_def split: sum.splits)
  show ?thesis
    using k1(2,3) k2(2,3) mb av py_keys_distinct by (simp add: data_obj)
qed

lemma mask_body_obj_ok:
  assumes "masked_of (map_of kvs (py ''device_id'')) = Inr c1"
    and "masked_of (map_of kvs (py ''ip'')) = Inr c2"
  shows "\<exists>mb. mask_body (JObj kvs) = Inr (mb, passed_of (map_of kvs (py ''app_version'')))"
proof -
  from mask_field_obj_ok [OF assms(1)] obtain kvs1 where
    k1: "mask_field (py ''device_id'') (JObj kvs) = Inr (JObj kvs1)"
    "\<forall>k'. k' \<noteq> py ''device_id'' \<longrightarrow> map_of kvs1 k' = map_of kvs k'"
    by blast
  have "masked_of (map_of kvs1 (py ''ip'')) = Inr c2"
    using assms(2) k1(2) py_keys_distinct by simp
  from mask_field_obj_ok [OF this] obtain kvs2 where
    k2: "mask_field (py ''ip'') (JObj kvs1) = Inr (JObj kvs2)"
    "\<forall>k'. k' \<noteq> py ''ip'' \<longrightarrow> map_of kvs2 k' = map_of kvs1 k'"
    by blast
  show ?thesis
    using k1 k2 py_keys_distinct by (simp add: mask_body_def passed_of_def)
qed


section \<open>One message\<close>

lemma data_shape: "data mb av = Inr ps \<Longrightarrow> \<exists>a b c d e. ps = [a, b, c, d, e, av]"
  by (auto simp add: data_def split: sum.splits)

lemma process_message_execute:
  assumes "process_message w bound tr m = (tr', r)"
    and "Execute q ps res \<in> set (drop (length tr) tr')"
  shows "q = insert_query \<and>
         (\<exists>body mb av. loads w (Body m) = Some body \<and> mask_body body = Inr (mb, av)
            \<and> data mb av = Inr ps)"
  using assms
  by (auto simp add: process_message_def Let_def
      split: option.splits sum.splits prod.splits if_splits)

lemma process_message_ok:
  assumes "process_message w bound tr m = (tr', None)"
  shows "\<exists>mb ps d. tr' = tr @ [Parse (Body m) True, Print (OutMasked mb),
            Execute insert_query ps (Some d), Commit True, Delete (ReceiptHandle m) True]"
  using assms
  by (auto simp add: process_message_def Let_def
      split: option.splits sum.splits prod.splits if_splits)

lemma process_all_append:
  "process_all w bound tr (xs @ ys) =
     (case process_all w bound tr xs of
        (tr', Some e) \<Rightarrow> (tr', Some e)
      | (tr', None) \<Rightarrow> process_all w bound tr' ys)"
  by (induction xs arbitrary: tr) (auto split: prod.splits option.splits)

text \<open>
  C5 (amended). Take a body that parsed to a mapping in which each of \<open>device_id\<close> and
  \<open>ip\<close> is absent or has a value that \<open>mask_pii\<close> accepts (a string without surrogate
  code points), and a run whose connection to the store was made. Then no exception is
  raised before the insert, the insert is called with all six parameters supplied, and
  the masked column of a field is null when the field is absent and \<open>mask_pii\<close> of the
  field's value when it is present (this is \<open>masked_of\<close>).
\<close>

theorem insert_masked_columns:
  assumes "loads w (Body m) = Some (JObj kvs)"
    and "masked_of (map_of kvs (py ''device_id'')) = Inr masked_device_id"
    and "masked_of (map_of kvs (py ''ip'')) = Inr masked_ip"
  shows "\<exists>masked r rest. fst (process_message w True tr m) =
           tr @ [Parse (Body m) True, Print (OutMasked masked),
                 Execute insert_query
                   [passed_of (map_of kvs (py ''user_id'')),
                    passed_of (map_of kvs (py ''device_type'')),
                    masked_ip, masked_device_id,
                    passed_of (map_of kvs (py ''locale'')),
                    passed_of (map_of kvs (py ''app_version''))] r] @ rest"
proof -
  from mask_body_obj_ok [OF assms(2,3)] obtain mb where
    mb: "mask_body (JObj kvs) = Inr (mb, passed_of (map_of kvs (py ''app_version'')))"
    by blast
  from mask_body_obj_inv [OF mb] assms(2,3) have
    d: "data mb (passed_of (map_of kvs (py ''app_version''))) =
          Inr [passed_of (map_of kvs (py ''user_id'')),
               passed_of (map_of kvs (py ''device_type'')), masked_ip, masked_device_id,
               passed_of (map_of kvs (py ''locale'')),
               passed_of (map_of kvs (py ''app_version''))]"
    by auto
  show ?thesis
    using assms(1) mb d
    by (simp add: process_message_def Let_def split: option.splits)
qed

text \<open>A body with \<open>ip\<close> and without \<open>device_id\<close>.\<close>

theorem insert_masked_columns_witness:
  "loads batch3 (Body login_message)
     = Some (JObj [(py ''ip'', JStr (py ''1.2.3.4'')), (py ''app_version'', JStr (py ''3.1''))])
   \<and> masked_of (map_of [(py ''ip'', JStr (py ''1.2.3.4'')), (py ''app_version'', JStr (py ''3.1''))]
         (py ''device_id'')) = Inr JNull
   \<and> masked_of (map_of [(py ''ip'', JStr (py ''1.2.3.4'')), (py ''app_version'', JStr (py ''3.1''))]
         (py ''ip'')) = Inr (JStr (hexdigest (sha256 [49, 46, 50, 46, 51, 46, 52])))
   \<and> (\<exists>masked r rest. fst (process_message batch3 True [] login_message) =
           [] @ [Parse (Body login_message) True, Print (OutMasked masked),
                 Execute insert_query
                   [JNull, JNull, JStr (hexdigest (sha256 [49, 46, 50, 46, 51, 46, 52])), JNull,
                    JNull, JStr (py ''3.1'')] r] @ rest)"
proof -
  have a: "loads batch3 (Body login_message)
     = Some (JObj [(py ''ip'', JStr (py ''1.2.3.4'')), (py ''app_version'', JStr (py ''3.1''))])"
    by (simp add: batch3_def demo_loads_def login_message_def py_def)
  have b: "masked_of (map_of [(py ''ip'', JStr (py ''1.2.3.4'')), (py ''app_version'', JStr (py ''3.1''))]
         (py ''device_id'')) = Inr JNull"
    by (simp add: masked_of_def py_def)
  have c: "masked_of (map_of [(py ''ip'', JStr (py ''1.2.3.4'')), (py ''app_version'', JStr (py ''3.1''))]
         (py ''ip'')) = Inr (JStr (hexdigest (sha256 [49, 46, 50, 46, 51, 46, 52])))"
    by (simp add: masked_of_def py_def)
  show ?thesis
    using a b c insert_masked_columns [OF a b c, of "[]"]
    by (simp add: passed_of_def py_def)
qed

text \<open>
  C5 as stated fails: in the body \<open>{"ip": 7}\<close> the field \<open>device_id\<close> is absent, yet the
  turn of the loop raises \<open>AttributeError\<close> at the masking of \<open>ip\<close>, and no insert is
  called, so no column is supplied at all.
\<close>

theorem absent_device_id_counterexample:
  "loads numeric_ip (Body numeric_ip_message) = Some (JObj [(py ''ip'', JInt 7)])
   \<and> map_of [(py ''ip'', JInt 7)] (py ''device_id'') = None
   \<and> process_message numeric_ip True [] numeric_ip_message =
       ([Parse (Body numeric_ip_message) True], Some AttributeError)"
  by (simp add: process_message_def numeric_ip_def numeric_ip_message_def py_def
      mask_body_def mask_field_def)

text \<open>
  The same holds whenever a field that is present has a value \<open>mask_pii\<close> rejects: the
  turn raises the exception of \<open>mask_pii\<close> right after the parse.
\<close>

lemma unmaskable_field_raises:
  assumes "loads w (Body m) = Some (JObj kvs)"
    and "masked_of (map_of kvs (py ''device_id'')) = Inl e
         \<or> (\<exists>c. masked_of (map_of kvs (py ''device_id'')) = Inr c)
            \<and> masked_of (map_of kvs (py ''ip'')) = Inl e"
  shows "process_message w bound tr m = (tr @ [Parse (Body m) True], Some e)"
proof -
  have "mask_body (JObj kvs) = Inl e"
  proof -
    from assms(2) consider
      (dev) "masked_of (map_of kvs (py ''device_id'')) = Inl e"
    | (ip) c where "masked_of (map_of kvs (py ''device_id'')) = Inr c"
        "masked_of (map_of kvs (py ''ip'')) = Inl e"
      by blast
    then show ?thesis
    proof cases
      case dev
      then have "mask_field (py ''device_id'') (JObj kvs) = Inl e"
        by (auto simp add: mask_field_obj masked_of_def split: option.splits sum.splits)
      then show ?thesis by (simp add: mask_body_def)
    next
      case ip
      from mask_field_obj_ok [OF ip(1)] obtain kvs1 where
        k1: "mask_field (py ''device_id'') (JObj kvs) = Inr (JObj kvs1)"
        "\<forall>k'. k' \<noteq> py ''device_id'' \<longrightarrow> map_of kvs1 k' = map_of kvs k'"
        by blast
      have "masked_of (map_of kvs1 (py ''ip'')) = Inl e"
        using ip(2) k1(2) py_keys_distinct by simp
      then have "mask_field (py ''ip'') (JObj kvs1) = Inl e"
        by (auto simp add: mask_field_obj masked_of_def split: option.splits sum.splits)
      then show ?thesis using k1(1) by (simp add: mask_body_def)
    qed
  qed
  then show ?thesis using assms(1) by (simp add: process_message_def)
qed



section \<open>The row the store builds\<close>

lemma fill_cells:
  "fill today es ps = Some cells \<Longrightarrow>
     length cells = length es \<and> (\<forall>i<length es. es ! i = CurrentDate \<longrightarrow> cells ! i = Date today)"
proof (induction today es ps arbitrary: cells rule: fill.induct)
  case (1 today)
  then show ?case by simp
next
  case (2 today p ps)
  then show ?case by simp
next
  case (3 today es ps)
  from "3.prems" obtain cs where cs: "fill today es ps = Some cs" and c: "cells = Date today # cs"
    by auto
  from "3.IH" [OF cs] show ?case using c by (auto simp add: nth_Cons split: nat.splits)
next
  case (4 today es)
  then show ?case by simp
next
  case (5 today es p ps)
  from "5.prems" obtain cs where cs: "fill today es ps = Some cs" and c: "cells = Val p # cs"
    by auto
  from "5.IH" [OF cs] show ?case using c by (auto simp add: nth_Cons split: nat.splits)
qed

lemma insert_row_create_date:
  assumes "row_of today insert_query ps = Some row"
  shows "map_of row ''create_date'' = Some (Date today)"
proof -
  let ?cols = "[''user_id'', ''device_type'', ''masked_ip'', ''masked_device_id'', ''locale'',
        ''app_version'', ''create_date'']"
  let ?es = "[Param, Param, Param, Param, Param, Param, CurrentDate]"
  from assms obtain cells where f: "fill today ?es ps = Some cells" and r: "row = zip ?cols cells"
    by (auto simp add: insert_query_def)
  from fill_cells [OF f] have l: "length cells = 7" and d: "cells ! 6 = Date today"
    by auto
  have "map_of (zip ?cols cells) (?cols ! 6) = Some (cells ! 6)"
    by (rule map_of_zip_nth) (simp_all add: l)
  then show ?thesis using r d by simp
qed

text \<open>
  C7. Whenever an insert of a message ran, on the day \<open>today\<close> of the store, the row the
  store builds has \<open>create_date = today\<close>, and so has the row of any other parameters:
  the date comes from \<open>CURRENT_DATE\<close> in the statement, never from the message.
\<close>

theorem create_date_is_store_date:
  assumes "process_message w bound tr m = (tr', r)"
    and "Execute q ps (Some today) \<in> set (drop (length tr) tr')"
  shows "\<exists>row. row_of today q ps = Some row \<and> map_of row ''create_date'' = Some (Date today)
           \<and> (\<forall>ps' row'. row_of today q ps' = Some row'
                 \<longrightarrow> map_of row' ''create_date'' = Some (Date today))"
proof -
  from process_message_execute [OF assms] obtain mb av where
    q: "q = insert_query" and d: "data mb av = Inr ps"
    by auto
  from data_shape [OF d] obtain a b c d e where ps: "ps = [a, b, c, d, e, av]"
    by blast
  have "\<exists>row. row_of today insert_query ps = Some row"
    by (simp add: ps insert_query_def)
  then show ?thesis using q insert_row_create_date by blast
qed

text \<open>The insert of the message with the body \<open>{}\<close>, on day 19000.\<close>

theorem create_date_is_store_date_witness:
  "process_message batch3 True [] \<lparr>Body = py ''{}'', ReceiptHandle = py ''h1''\<rparr> =
     ([Parse (py ''{}'') True, Print (OutMasked (JObj [])),
       Execute insert_query [JNull, JNull, JNull, JNull, JNull, JNull] (Some 19000),
       Commit True, Delete (py ''h1'') True], None)
   \<and> (\<exists>row. row_of 19000 insert_query [JNull, JNull, JNull, JNull, JNull, JNull] = Some row
         \<and> map_of row ''create_date'' = Some (Date 19000)
         \<and> (\<forall>ps' row'. row_of 19000 insert_query ps' = Some row'
                 \<longrightarrow> map_of row' ''create_date'' = Some (Date 19000)))"
proof -
  have p: "process_message batch3 True [] \<lparr>Body = py ''{}'', ReceiptHandle = py ''h1''\<rparr> =
     ([Parse (py ''{}'') True, Print (OutMasked (JObj [])),
       Execute insert_query [JNull, JNull, JNull, JNull, JNull, JNull] (Some 19000),
       Commit True, Delete (py ''h1'') True], None)"
    by (simp add: process_message_def batch3_def demo_loads_def py_def
        mask_body_def mask_field_def data_def Let_def)
  have e: "Execute insert_query [JNull, JNull, JNull, JNull, JNull, JNull] (Some 19000)
      \<in> set (drop (length ([] :: event list))
     [Parse (py ''{}'') True, Print (OutMasked (JObj [])),
       Execute insert_query [JNull, JNull, JNull, JNull, JNull, JNull] (Some 19000),
       Commit True, Delete (py ''h1'') True])"
    by simp
  show ?thesis
    using p create_date_is_store_date [OF p e] by simp
qed

section \<open>The loop over the messages\<close>

lemma process_message_unparseable:
  "loads w (Body m) = None \<Longrightarrow>
     process_message w bound tr m = (tr @ [Parse (Body m) False], Some JSONDecodeError)"
  by (simp add: process_message_def)

text \<open>
  C3. When the body of a message does not parse, the loop over a batch holding it ends
  either before it, at an exception of an earlier message, or at the message itself,
  which adds the failed parse to the trace and nothing else: no insert, no delete.
\<close>

theorem unparseable_message_retained:
  assumes "loads w (Body m) = None"
  shows "process_all w bound tr (before @ m # after) =
           (case process_all w bound tr before of
              (tr1, Some e) \<Rightarrow> (tr1, Some e)
            | (tr1, None) \<Rightarrow> (tr1 @ [Parse (Body m) False], Some JSONDecodeError))"
  using assms
  by (simp add: process_all_append process_message_unparseable split: prod.splits option.splits)

text \<open>The batch of three messages whose second body is \<open>{\<close>.\<close>

theorem unparseable_message_retained_witness:
  "loads batch3 (Body \<lparr>Body = py ''{'', ReceiptHandle = py ''h2''\<rparr>) = None
   \<and> process_all batch3 True []
        ([\<lparr>Body = py ''{}'', ReceiptHandle = py ''h1''\<rparr>]
         @ \<lparr>Body = py ''{'', ReceiptHandle = py ''h2''\<rparr>
         # [\<lparr>Body = py ''{}'', ReceiptHandle = py ''h3''\<rparr>]) =
       ([Parse (py ''{}'') True, Print (OutMasked (JObj [])),
         Execute insert_query [JNull, JNull, JNull, JNull, JNull, JNull] (Some 19000),
         Commit True, Delete (py ''h1'') True, Parse (py ''{'') False], Some JSONDecodeError)"
proof -
  have a: "loads batch3 (Body \<lparr>Body = py ''{'', ReceiptHandle = py ''h2''\<rparr>) = None"
    by (simp add: batch3_def demo_loads_def py_def)
  have p: "process_message batch3 True [] \<lparr>Body = py ''{}'', ReceiptHandle = py ''h1''\<rparr> =
     ([Parse (py ''{}'') True, Print (OutMasked (JObj [])),
       Execute insert_query [JNull, JNull, JNull, JNull, JNull, JNull] (Some 19000),
       Commit True, Delete (py ''h1'') True], None)"
    by (simp add: process_message_def batch3_def demo_loads_def py_def
        mask_body_def mask_field_def data_def Let_def)
  show ?thesis
    using a unparseable_message_retained [OF a, of True "[]"
        "[\<lparr>Body = py ''{}'', ReceiptHandle = py ''h1''\<rparr>]"
        "[\<lparr>Body = py ''{}'', ReceiptHandle = py ''h3''\<rparr>]"]
    by (simp add: p)
qed

text \<open>
  C2 (amended). Messages are processed in order and the first message that raises ends
  the loop: the trace and the exception are those of that message, whatever messages
  follow it, so the messages after it are neither inserted nor deleted.
\<close>

theorem first_failure_ends_loop:
  assumes "process_all w bound tr before = (tr1, None)"
    and "process_message w bound tr1 m = (tr2, Some e)"
  shows "process_all w bound tr (before @ m # after) = (tr2, Some e)"
  using assms by (simp add: process_all_append)

text \<open>In the batch of three, the third message adds nothing.\<close>

theorem first_failure_ends_loop_witness:
  "process_all batch3 True [] [\<lparr>Body = py ''{}'', ReceiptHandle = py ''h1''\<rparr>] =
     ([Parse (py ''{}'') True, Print (OutMasked (JObj [])),
       Execute insert_query [JNull, JNull, JNull, JNull, JNull, JNull] (Some 19000),
       Commit True, Delete (py ''h1'') True], None)
   \<and> process_message batch3 True
         [Parse (py ''{}'') True, Print (OutMasked (JObj [])),
          Execute insert_query [JNull, JNull, JNull, JNull, JNull, JNull] (Some 19000),
          Commit True, Delete (py ''h1'') True]
         \<lparr>Body = py ''{'', ReceiptHandle = py ''h2''\<rparr> =
     ([Parse (py ''{}'') True, Print (OutMasked (JObj [])),
       Execute insert_query [JNull, JNull, JNull, JNull, JNull, JNull] (Some 19000),
       Commit True, Delete (py ''h1'') True, Parse (py ''{'') False], Some JSONDecodeError)
   \<and> process_all batch3 True []
         ([\<lparr>Body = py ''{}'', ReceiptHandle = py ''h1''\<rparr>]
          @ \<lparr>Body = py ''{'', ReceiptHandle = py ''h2''\<rparr>
          # [\<lparr>Body = py ''{}'', ReceiptHandle = py ''h3''\<rparr>]) =
     ([Parse (py ''{}'') True, Print (OutMasked (JObj [])),
       Execute insert_query [JNull, JNull, JNull, JNull, JNull, JNull] (Some 19000),
       Commit True, Delete (py ''h1'') True, Parse (py ''{'') False], Some JSONDecodeError)"
proof -
  have a: "process_all batch3 True [] [\<lparr>Body = py ''{}'', ReceiptHandle = py ''h1''\<rparr>] =
     ([Parse (py ''{}'') True, Print (OutMasked (JObj [])),
       Execute insert_query [JNull, JNull, JNull, JNull, JNull, JNull] (Some 19000),
       Commit True, Delete (py ''h1'') True], None)"
    by (simp add: process_message_def batch3_def demo_loads_def py_def
        mask_body_def mask_field_def data_def Let_def)
  have b: "process_message batch3 True
         [Parse (py ''{}'') True, Print (OutMasked (JObj [])),
          Execute insert_query [JNull, JNull, JNull, JNull, JNull, JNull] (Some 19000),
          Commit True, Delete (py ''h1'') True]
         \<lparr>Body = py ''{'', ReceiptHandle = py ''h2''\<rparr> =
     ([Parse (py ''{}'') True, Print (OutMasked (JObj [])),
       Execute insert_query [JNull, JNull, JNull, JNull, JNull, JNull] (Some 19000),
       Commit True, Delete (py ''h1'') True, Parse (py ''{'') False], Some JSONDecodeError)"
    by (simp add: process_message_def batch3_def demo_loads_def py_def)
  show ?thesis
    using a b first_failure_ends_loop [OF a b,
        of "[\<lparr>Body = py ''{}'', ReceiptHandle = py ''h3''\<rparr>]"]
    by blast
qed

text \<open>
  C2 as stated fails on the batch of three with an unparseable second body: the whole
  run ends at the failed parse of the second message, and the third message is never
  parsed, inserted or deleted.
\<close>

theorem batch_of_three_counterexample:
  "main batch3 =
     Some ([Connect True, Print OutConnected,
            Execute alter_column_query [] (Some 19000), Commit True, Print OutColumnAltered,
            Receive 10 (Messages [\<lparr>Body = py ''{}'', ReceiptHandle = py ''h1''\<rparr>,
                                  \<lparr>Body = py ''{'', ReceiptHandle = py ''h2''\<rparr>,
                                  \<lparr>Body = py ''{}'', ReceiptHandle = py ''h3''\<rparr>]),
            Receive 10 NoMessages,
            Parse (py ''{}'') True, Print (OutMasked (JObj [])),
            Execute insert_query [JNull, JNull, JNull, JNull, JNull, JNull] (Some 19000),
            Commit True, Delete (py ''h1'') True,
            Parse (py ''{'') False],
           Some JSONDecodeError)"
  by (simp add: main_def batch3_def connect_step_def alter_step_def receive_loop.simps
      process_message_def demo_loads_def mask_body_def mask_field_def data_def Let_def py_def)

section \<open>The shape of the trace\<close>

lemma recv_post_step:
  assumes "recv_post (tr @ [Receive 10 (Messages ms)]) (acc @ ms) y"
  shows "recv_post tr acc y"
proof -
  from assms obtain rs where rs:
    "fst y = (tr @ [Receive 10 (Messages ms)]) @ rs" "rs \<noteq> []" "list_all is_receive10 rs"
    "list_all is_batch (butlast rs)"
    "(case snd y of
        Inl e \<Rightarrow> e = ClientError \<and> last rs = Receive 10 RecvRaised
      | Inr msgs \<Rightarrow> msgs = (acc @ ms) @ received rs \<and> last rs = Receive 10 NoMessages)"
    unfolding recv_post_def by blast
  show ?thesis
    unfolding recv_post_def
    by (rule exI [of _ "Receive 10 (Messages ms) # rs"])
      (use rs in \<open>auto split: sum.splits\<close>)
qed

lemma receive_loop_post:
  assumes "receive_loop w tr acc = Some y"
  shows "recv_post tr acc y"
proof (rule receive_loop.raw_induct [where P = "\<lambda>w tr acc y. recv_post tr acc y", OF _ assms])
  fix loop :: "env \<Rightarrow> event list \<Rightarrow> message list \<Rightarrow> (event list \<times> (pyerr + message list)) option"
  fix w tr acc y
  assume IH: "\<And>w tr acc y. loop w tr acc = Some y \<Longrightarrow> recv_post tr acc y"
  assume body: "(case receive_message w tr of
      RecvRaised \<Rightarrow> Some (tr @ [Receive 10 RecvRaised], Inl ClientError)
      | NoMessages \<Rightarrow> Some (tr @ [Receive 10 NoMessages], Inr acc)
      | Messages ms \<Rightarrow> loop w (tr @ [Receive 10 (Messages ms)]) (acc @ ms)) = Some y"
  show "recv_post tr acc y"
  proof (cases "receive_message w tr")
    case RecvRaised
    with body show ?thesis by (auto simp add: recv_post_def)
  next
    case NoMessages
    with body show ?thesis by (auto simp add: recv_post_def)
  next
    case (Messages ms)
    with body have "loop w (tr @ [Receive 10 (Messages ms)]) (acc @ ms) = Some y"
      by simp
    from recv_post_step [OF IH [OF this]] show ?thesis .
  qed
qed

lemma process_message_cases:
  assumes "process_message w bound tr m = (tr', r)"
  shows "(tr' = tr @ [Parse (Body m) False] \<and> r = Some JSONDecodeError)
       \<or> (tr' = tr @ [Parse (Body m) True] \<and> r \<noteq> None)
       \<or> (\<exists>mb. tr' = tr @ [Parse (Body m) True, Print (OutMasked mb)] \<and> r \<noteq> None)
       \<or> (\<exists>mb ps. tr' = tr @ [Parse (Body m) True, Print (OutMasked mb),
                                 Execute insert_query ps None] \<and> r = Some DatabaseError)
       \<or> (\<exists>mb ps d. tr' = tr @ [Parse (Body m) True, Print (OutMasked mb),
                                 Execute insert_query ps (Some d), Commit False]
             \<and> r = Some DatabaseError)
       \<or> (\<exists>mb ps d ok. tr' = tr @ [Parse (Body m) True, Print (OutMasked mb),
                                 Execute insert_query ps (Some d), Commit True,
                                 Delete (ReceiptHandle m) ok]
             \<and> record_of w m = Some ps \<and> r = (if ok then None else Some ClientError))"
proof (cases "loads w (Body m)")
  case None
  with assms have "tr' = tr @ [Parse (Body m) False]" "r = Some JSONDecodeError"
    by (simp_all add: process_message_def)
  then show ?thesis by simp
next
  case (Some body)
  show ?thesis
  proof (cases "mask_body body")
    case (Inl e)
    with assms Some have "tr' = tr @ [Parse (Body m) True]" "r = Some e"
      by (simp_all add: process_message_def)
    then show ?thesis by simp
  next
    case (Inr p)
    obtain mb av where p: "p = (mb, av)" by (cases p)
    show ?thesis
    proof (cases "data mb av")
      case (Inl e)
      with assms Some Inr p have "tr' = tr @ [Parse (Body m) True, Print (OutMasked mb)]"
        "r = Some e"
        by (simp_all add: process_message_def)
      then show ?thesis by simp
    next
      case ps: (Inr ps)
      have rec: "record_of w m = Some ps"
        using Some Inr p ps by (simp add: record_of_def)
      let ?tr1 = "tr @ [Parse (Body m) True, Print (OutMasked mb)]"
      show ?thesis
      proof (cases bound)
        case False
        with assms Some Inr p ps have "tr' = ?tr1" "r = Some NameError"
          by (simp_all add: process_message_def)
        then show ?thesis by simp
      next
        case True
        show ?thesis
        proof (cases "run_sql w ?tr1 insert_query ps")
          case None
          with assms Some Inr p ps True have
            "tr' = tr @ [Parse (Body m) True, Print (OutMasked mb), Execute insert_query ps None]"
            "r = Some DatabaseError"
            by (simp_all add: process_message_def)
          then show ?thesis by simp
        next
          case d: (Some d)
          let ?tr2 = "?tr1 @ [Execute insert_query ps (Some d)]"
          show ?thesis
          proof (cases "commit_ok w ?tr2")
            case False
            with assms Some Inr p ps True d have
              "tr' = tr @ [Parse (Body m) True, Print (OutMasked mb),
                     Execute insert_query ps (Some d), Commit False]"
              "r = Some DatabaseError"
              by (simp_all add: process_message_def)
            then show ?thesis by simp
          next
            case c: True
            let ?ok = "delete_ok w (?tr2 @ [Commit True]) (ReceiptHandle m)"
            from assms Some Inr p ps True d c have
              "tr' = tr @ [Parse (Body m) True, Print (OutMasked mb),
                     Execute insert_query ps (Some d), Commit True,
                     Delete (ReceiptHandle m) ?ok]"
              "r = (if ?ok then None else Some ClientError)"
              by (auto simp add: process_message_def Let_def split: if_splits)
            with rec have "\<exists>mb ps d ok. tr' = tr @ [Parse (Body m) True, Print (OutMasked mb),
                                 Execute insert_query ps (Some d), Commit True,
                                 Delete (ReceiptHandle m) ok]
             \<and> record_of w m = Some ps \<and> r = (if ok then None else Some ClientError)"
              by blast
            then show ?thesis by blast
          qed
        qed
      qed
    qed
  qed
qed

lemma ack_step_Parse: "st \<noteq> Violated \<Longrightarrow> ack_step st (Parse b ok) = Idle"
  by (cases st) simp_all

lemma ack_step_Print: "st \<noteq> Violated \<Longrightarrow> ack_step st (Print l) = Idle"
  by (cases st) simp_all

lemma record_row:
  assumes "record_of w m = Some ps"
  shows "\<exists>row. row_of d insert_query ps = Some row \<and> row_for w row m"
proof -
  from assms obtain mb av where "data mb av = Inr ps"
    by (auto simp add: record_of_def split: option.splits sum.splits prod.splits)
  from data_shape [OF this] obtain a b c d' e where "ps = [a, b, c, d', e, av]" by blast
  then have "\<exists>row. row_of d insert_query ps = Some row" by (simp add: insert_query_def)
  then show ?thesis using assms by (auto simp add: row_for_def)
qed

lemma message_postI:
  assumes "list_all (\<lambda>e. \<not> is_receive e) seg"
    and "printed_lines seg = map OutMasked bodies" and "length bodies \<le> 1"
    and "\<And>st. st \<noteq> Violated \<Longrightarrow> foldl ack_step st seg \<noteq> Violated"
    and "(r \<noteq> None \<and> delete_calls seg = []
            \<and> (\<forall>table. foldl store_step ([], table) seg = ([], table)))
          \<or> (delete_calls seg = [ReceiptHandle m]
              \<and> (\<forall>table. \<exists>row. foldl store_step ([], table) seg = ([], table @ [row])
                     \<and> row_for w row m))"
  shows "message_post w m seg r"
  unfolding message_post_def using assms by blast

lemma process_message_post:
  assumes "process_message w bound tr m = (tr', r)"
  shows "\<exists>seg. tr' = tr @ seg \<and> message_post w m seg r"
proof -
  note c = process_message_cases [OF assms]
  note idle = ack_step_Parse
  from c consider
    (a) "tr' = tr @ [Parse (Body m) False]" "r \<noteq> None"
  | (b) "tr' = tr @ [Parse (Body m) True]" "r \<noteq> None"
  | (c) mb where "tr' = tr @ [Parse (Body m) True, Print (OutMasked mb)]" "r \<noteq> None"
  | (d) mb ps where "tr' = tr @ [Parse (Body m) True, Print (OutMasked mb),
                                 Execute insert_query ps None]" "r \<noteq> None"
  | (e) mb ps d where "tr' = tr @ [Parse (Body m) True, Print (OutMasked mb),
                                 Execute insert_query ps (Some d), Commit False]" "r \<noteq> None"
  | (f) mb ps d ok where "tr' = tr @ [Parse (Body m) True, Print (OutMasked mb),
                                 Execute insert_query ps (Some d), Commit True,
                                 Delete (ReceiptHandle m) ok]" "record_of w m = Some ps"
    by auto
  then show ?thesis
  proof cases
    case a
    have "message_post w m [Parse (Body m) False] r"
      by (rule message_postI [where bodies = "[]"]) (simp_all add: idle a(2))
    with a(1) show ?thesis by blast
  next
    case b
    have "message_post w m [Parse (Body m) True] r"
      by (rule message_postI [where bodies = "[]"]) (simp_all add: idle b(2))
    with b(1) show ?thesis by blast
  next
    case c
    have "message_post w m [Parse (Body m) True, Print (OutMasked mb)] r"
      by (rule message_postI [where bodies = "[mb]"]) (simp_all add: idle c(2))
    with c(1) show ?thesis by blast
  next
    case d
    have "message_post w m [Parse (Body m) True, Print (OutMasked mb),
        Execute insert_query ps None] r"
      by (rule message_postI [where bodies = "[mb]"]) (simp_all add: idle d(2))
    with d(1) show ?thesis by blast
  next
    case e
    have "message_post w m [Parse (Body m) True, Print (OutMasked mb),
        Execute insert_query ps (Some d), Commit False] r"
      by (rule message_postI [where bodies = "[mb]"])
        (simp_all add: idle e(2) split: option.splits)
    with e(1) show ?thesis by blast
  next
    case f
    from record_row [OF f(2), of d] obtain row where
      row: "row_of d insert_query ps = Some row" "row_for w row m" by blast
    have "message_post w m [Parse (Body m) True, Print (OutMasked mb),
        Execute insert_query ps (Some d), Commit True, Delete (ReceiptHandle m) ok] r"
      by (rule message_postI [where bodies = "[mb]"]) (simp_all add: idle row)
    with f(1) show ?thesis by blast
  qed
qed

lemma printed_lines_append: "printed_lines (a @ b) = printed_lines a @ printed_lines b"
  by (induction a rule: printed_lines.induct) simp_all

lemma delete_calls_append: "delete_calls (a @ b) = delete_calls a @ delete_calls b"
  by (induction a rule: delete_calls.induct) simp_all

lemma received_append: "received (a @ b) = received a @ received b"
  by (induction a rule: received.induct) simp_all

lemma loop_post_Nil: "loop_post w msgs []"
  unfolding loop_post_def
proof (intro conjI)
  show "\<exists>bodies. printed_lines [] = map OutMasked bodies \<and> length bodies \<le> length msgs"
    by (rule exI [of _ "[]"]) simp
  show "\<exists>j\<le>length msgs. delete_calls [] = map ReceiptHandle (take j msgs)
            \<and> (\<forall>table. \<exists>rows. foldl store_step ([], table) [] = ([], table @ rows)
                   \<and> list_all2 (row_for w) rows (take j msgs))"
    by (rule exI [of _ 0]) simp
qed simp_all

lemma loop_post_last:
  assumes "message_post w m seg r"
  shows "loop_post w (m # ms) seg"
proof -
  from assms have nr: "list_all (\<lambda>e. \<not> is_receive e) seg"
    and ack: "\<forall>st. st \<noteq> Violated \<longrightarrow> foldl ack_step st seg \<noteq> Violated"
    by (simp_all add: message_post_def)
  from assms obtain bodies where b: "printed_lines seg = map OutMasked bodies" "length bodies \<le> 1"
    unfolding message_post_def by blast
  then have pr: "\<exists>bodies. printed_lines seg = map OutMasked bodies
      \<and> length bodies \<le> length (m # ms)"
    by (intro exI [of _ bodies]) simp
  from assms consider
    (none) "delete_calls seg = []" "\<forall>table. foldl store_step ([], table) seg = ([], table)"
  | (one) "delete_calls seg = [ReceiptHandle m]"
      "\<forall>table. \<exists>row. foldl store_step ([], table) seg = ([], table @ [row]) \<and> row_for w row m"
    unfolding message_post_def by blast
  then have "\<exists>j\<le>length (m # ms). delete_calls seg = map ReceiptHandle (take j (m # ms))
            \<and> (\<forall>table. \<exists>rows. foldl store_step ([], table) seg = ([], table @ rows)
                   \<and> list_all2 (row_for w) rows (take j (m # ms)))"
  proof cases
    case none
    show ?thesis by (rule exI [of _ 0]) (simp add: none)
  next
    case one
    have "\<forall>table. \<exists>rows. foldl store_step ([], table) seg = ([], table @ rows)
                   \<and> list_all2 (row_for w) rows [m]"
    proof
      fix table
      from one(2) obtain row where
        "foldl store_step ([], table) seg = ([], table @ [row])" "row_for w row m"
        by blast
      then show "\<exists>rows. foldl store_step ([], table) seg = ([], table @ rows)
                   \<and> list_all2 (row_for w) rows [m]"
        by (intro exI [of _ "[row]"]) simp
    qed
    then show ?thesis by (intro exI [of _ 1]) (simp add: one(1))
  qed
  with nr ack pr show ?thesis unfolding loop_post_def by blast
qed

lemma loop_post_Cons:
  assumes "message_post w m seg1 None" and "loop_post w ms seg2"
  shows "loop_post w (m # ms) (seg1 @ seg2)"
proof -
  from assms(1) have nr1: "list_all (\<lambda>e. \<not> is_receive e) seg1"
    and ack1: "\<forall>st. st \<noteq> Violated \<longrightarrow> foldl ack_step st seg1 \<noteq> Violated"
    and d1: "delete_calls seg1 = [ReceiptHandle m]"
    and s1: "\<forall>table. \<exists>row. foldl store_step ([], table) seg1 = ([], table @ [row])
                \<and> row_for w row m"
    by (simp_all add: message_post_def)
  from assms(1) obtain b1 where b1: "printed_lines seg1 = map OutMasked b1" "length b1 \<le> 1"
    unfolding message_post_def by blast
  from assms(2) have nr2: "list_all (\<lambda>e. \<not> is_receive e) seg2"
    and ack2: "\<forall>st. st \<noteq> Violated \<longrightarrow> foldl ack_step st seg2 \<noteq> Violated"
    by (simp_all add: loop_post_def)
  from assms(2) obtain b2 where b2: "printed_lines seg2 = map OutMasked b2"
    "length b2 \<le> length ms"
    unfolding loop_post_def by blast
  from assms(2) obtain j where j: "j \<le> length ms"
    "delete_calls seg2 = map ReceiptHandle (take j ms)"
    "\<forall>table. \<exists>rows. foldl store_step ([], table) seg2 = ([], table @ rows)
        \<and> list_all2 (row_for w) rows (take j ms)"
    unfolding loop_post_def by blast
  have nr: "list_all (\<lambda>e. \<not> is_receive e) (seg1 @ seg2)"
    using nr1 nr2 by simp
  have ack: "\<forall>st. st \<noteq> Violated \<longrightarrow> foldl ack_step st (seg1 @ seg2) \<noteq> Violated"
    using ack1 ack2 by simp
  have pr: "\<exists>bodies. printed_lines (seg1 @ seg2) = map OutMasked bodies
      \<and> length bodies \<le> length (m # ms)"
    by (rule exI [of _ "b1 @ b2"]) (use b1 b2 in \<open>simp add: printed_lines_append\<close>)
  have st: "\<forall>table. \<exists>rows. foldl store_step ([], table) (seg1 @ seg2) = ([], table @ rows)
                   \<and> list_all2 (row_for w) rows (m # take j ms)"
  proof
    fix table
    from s1 obtain row where row:
      "foldl store_step ([], table) seg1 = ([], table @ [row])" "row_for w row m"
      by blast
    from j(3) obtain rows where rows:
      "foldl store_step ([], table @ [row]) seg2 = ([], (table @ [row]) @ rows)"
      "list_all2 (row_for w) rows (take j ms)"
      by blast
    show "\<exists>rows. foldl store_step ([], table) (seg1 @ seg2) = ([], table @ rows)
                   \<and> list_all2 (row_for w) rows (m # take j ms)"
      by (rule exI [of _ "row # rows"]) (use row rows in simp)
  qed
  have "\<exists>j\<le>length (m # ms). delete_calls (seg1 @ seg2) = map ReceiptHandle (take j (m # ms))
            \<and> (\<forall>table. \<exists>rows. foldl store_step ([], table) (seg1 @ seg2) = ([], table @ rows)
                   \<and> list_all2 (row_for w) rows (take j (m # ms)))"
    by (rule exI [of _ "Suc j"]) (use j(1,2) d1 st in \<open>simp add: delete_calls_append\<close>)
  with nr ack pr show ?thesis unfolding loop_post_def by blast
qed

lemma process_all_post:
  assumes "process_all w bound tr msgs = (tr', r)"
  shows "\<exists>seg. tr' = tr @ seg \<and> loop_post w msgs seg"
  using assms
proof (induction msgs arbitrary: tr)
  case Nil
  then show ?case by (simp add: loop_post_Nil)
next
  case (Cons m ms)
  obtain tr1 r1 where pm: "process_message w bound tr m = (tr1, r1)"
    by (cases "process_message w bound tr m")
  from process_message_post [OF pm] obtain seg1 where
    seg1: "tr1 = tr @ seg1" "message_post w m seg1 r1"
    by blast
  show ?case
  proof (cases r1)
    case None
    with Cons.prems pm have "process_all w bound tr1 ms = (tr', r)" by simp
    from Cons.IH [OF this] obtain seg2 where seg2: "tr' = tr1 @ seg2" "loop_post w ms seg2"
      by blast
    from seg1(2) None have "message_post w m seg1 None" by simp
    from loop_post_Cons [OF this seg2(2)] seg1(1) seg2(1) show ?thesis by auto
  next
    case (Some e)
    with Cons.prems pm have "tr' = tr1" by simp
    with loop_post_last [OF seg1(2)] seg1(1) show ?thesis by auto
  qed
qed

section \<open>The whole run\<close>

lemma startup_cases:
  "(\<exists>first second. startup w = [Connect False, Print first, Print second]
       \<and> first = OutConnectError \<and> second = OutAlterError NameError)
   \<or> (\<exists>second. startup w = [Connect True, Print OutConnected,
          Execute alter_column_query [] None, Print second]
       \<and> second = OutAlterError DatabaseError)
   \<or> (\<exists>d ok second. startup w = [Connect True, Print OutConnected,
          Execute alter_column_query [] (Some d), Commit ok, Print second]
       \<and> (second = OutColumnAltered \<or> second = OutAlterError DatabaseError))"
  by (auto simp add: startup_def connect_step_def alter_step_def split: option.splits)

lemma alter_not_insert: "alter_column_query \<noteq> insert_query"
  by (simp add: alter_column_query_def insert_query_def)

lemma row_of_alter: "row_of d alter_column_query ps = None"
  by (simp add: alter_column_query_def)

lemma startup_inert:
  "list_all (\<lambda>e. \<not> is_receive e \<and> \<not> is_work e) (startup w)"
  "received (startup w) = []"
  "delete_calls (startup w) = []"
  "foldl store_step ([], table) (startup w) = ([], table)"
  "foldl ack_step Idle (startup w) \<noteq> Violated"
  using startup_cases [of w]
  by (auto simp add: alter_not_insert row_of_alter)


lemma receive_event: "is_receive10 e \<Longrightarrow> \<exists>r. e = Receive 10 r"
  by (cases e) simp_all

lemma ack_step_Receive: "st \<noteq> Violated \<Longrightarrow> ack_step st (Receive n r) = Idle"
  by (cases st) simp_all

lemma receives_no_delete: "list_all is_receive10 rs \<Longrightarrow> delete_calls rs = []"
  by (induction rs) (auto dest: receive_event)


lemma receives_no_work: "list_all is_receive10 rs \<Longrightarrow> list_all (\<lambda>e. \<not> is_work e) rs"
  by (induction rs) (auto dest: receive_event)

lemma receives_store: "list_all is_receive10 rs \<Longrightarrow> foldl store_step (p, t) rs = (p, t)"
  by (induction rs) (auto dest: receive_event)

lemma receives_ack:
  "list_all is_receive10 rs \<Longrightarrow> st \<noteq> Violated \<Longrightarrow> foldl ack_step st rs \<noteq> Violated"
proof (induction rs arbitrary: st)
  case Nil
  then show ?case by simp
next
  case (Cons e rs)
  from Cons.prems(1) obtain r where e: "e = Receive 10 r"
    using receive_event [of e] by auto
  have "foldl ack_step Idle rs \<noteq> Violated"
    using Cons.IH [of Idle] Cons.prems(1) by simp
  then show ?case using e Cons.prems(2) by (simp add: ack_step_Receive)
qed

lemma no_receive_received: "list_all (\<lambda>e. \<not> is_receive e) seg \<Longrightarrow> received seg = []"
  by (induction seg rule: received.induct) simp_all

lemma main_shape:
  assumes "main w = Some (tr, r)"
  shows "\<exists>rs seg closing. tr = startup w @ rs @ seg @ closing
           \<and> rs \<noteq> [] \<and> list_all is_receive10 rs \<and> list_all is_batch (butlast rs)
           \<and> loop_post w (received rs) seg
           \<and> ((seg = [] \<and> closing = []) \<or> last rs = Receive 10 NoMessages)
           \<and> (if r = None then closing = [CloseCursor, CloseConnection, Print OutClosed]
               else closing = [])"
proof -
  obtain tr0 bound where cs: "connect_step w = (tr0, bound)"
    by (cases "connect_step w")
  then have st: "alter_step w bound tr0 = startup w" by (simp add: startup_def)
  from assms obtain tr2 res where rl: "receive_loop w (startup w) [] = Some (tr2, res)"
    by (auto simp add: main_def cs st split: option.splits)
  from receive_loop_post [OF rl] obtain rs where rs:
    "tr2 = startup w @ rs" "rs \<noteq> []" "list_all is_receive10 rs" "list_all is_batch (butlast rs)"
    "(case res of
        Inl e \<Rightarrow> e = ClientError \<and> last rs = Receive 10 RecvRaised
      | Inr ms \<Rightarrow> ms = [] @ received rs \<and> last rs = Receive 10 NoMessages)"
    unfolding recv_post_def by auto
  show ?thesis
  proof (cases res)
    case (Inl e)
    with assms rl have "tr = tr2" "r = Some e"
      by (simp_all add: main_def cs st)
    then show ?thesis
      using rs(1-4) loop_post_Nil [of w "received rs"]
      by (intro exI [of _ rs] exI [of _ "[]"]) simp
  next
    case (Inr msgs)
    with rs(5) have msgs: "msgs = received rs" and last: "last rs = Receive 10 NoMessages"
      by simp_all
    obtain tr3 r3 where pa: "process_all w bound tr2 msgs = (tr3, r3)"
      by (cases "process_all w bound tr2 msgs")
    from process_all_post [OF pa] obtain seg where seg: "tr3 = tr2 @ seg" "loop_post w msgs seg"
      by blast
    show ?thesis
    proof (cases r3)
      case (Some e)
      with assms rl Inr pa have "tr = tr3" "r = Some e"
        by (simp_all add: main_def cs st)
      then show ?thesis
        using rs(1-4) seg msgs last
        by (intro exI [of _ rs] exI [of _ seg] exI [of _ "[]"]) simp
    next
      case None
      with assms rl Inr pa have cl: "close_step bound tr3 = (tr, r)"
        by (simp add: main_def cs st)
      show ?thesis
      proof (cases bound)
        case True
        with cl have "tr = tr3 @ [CloseCursor, CloseConnection, Print OutClosed]" "r = None"
          by (simp_all add: close_step_def)
        then show ?thesis
          using rs(1-4) seg msgs last
          by (intro exI [of _ rs] exI [of _ seg]
              exI [of _ "[CloseCursor, CloseConnection, Print OutClosed]"]) simp
      next
        case False
        with cl have "tr = tr3" "r = Some NameError"
          by (simp_all add: close_step_def)
        then show ?thesis
          using rs(1-4) seg msgs last
          by (intro exI [of _ rs] exI [of _ seg] exI [of _ "[]"]) simp
      qed
    qed
  qed
qed

lemma startup_no_work: "list_all (\<lambda>e. \<not> is_work e) (startup w)"
  using startup_cases [of w] by (auto simp add: alter_not_insert)

lemma startup_no_receive: "list_all (\<lambda>e. \<not> is_receive e) (startup w)"
  using startup_cases [of w] by auto

lemma closing_ack:
  "st \<noteq> Violated \<Longrightarrow> foldl ack_step st [CloseCursor, CloseConnection, Print OutClosed] \<noteq> Violated"
  by (cases st) simp_all

lemma batch3_run:
  "main batch3 =
     Some ([Connect True, Print OutConnected,
            Execute alter_column_query [] (Some 19000), Commit True, Print OutColumnAltered,
            Receive 10 (Messages [\<lparr>Body = py ''{}'', ReceiptHandle = py ''h1''\<rparr>,
                                  \<lparr>Body = py ''{'', ReceiptHandle = py ''h2''\<rparr>,
                                  \<lparr>Body = py ''{}'', ReceiptHandle = py ''h3''\<rparr>]),
            Receive 10 NoMessages,
            Parse (py ''{}'') True, Print (OutMasked (JObj [])),
            Execute insert_query [JNull, JNull, JNull, JNull, JNull, JNull] (Some 19000),
            Commit True, Delete (py ''h1'') True,
            Parse (py ''{'') False],
           Some JSONDecodeError)"
  by (simp add: main_def batch3_def connect_step_def alter_step_def receive_loop.simps
      process_message_def demo_loads_def mask_body_def mask_field_def data_def Let_def py_def)




text \<open>
  C10. When the first call of \<open>receive_message\<close> returns no messages, the run ends, its
  trace holds no parse, no insert and no delete, no call of \<open>delete_message\<close> is made,
  and the table of the store holds the rows it held before.
\<close>

theorem empty_cycle_changes_nothing:
  assumes "receive_message w (startup w) = NoMessages"
  shows "\<exists>tr r. main w = Some (tr, r) \<and> list_all (\<lambda>e. \<not> is_work e) tr
           \<and> delete_calls tr = [] \<and> (\<forall>table. table_after table tr = table)"
proof -
  obtain tr0 bound where cs: "connect_step w = (tr0, bound)"
    by (cases "connect_step w")
  then have st: "alter_step w bound tr0 = startup w" by (simp add: startup_def)
  have rl: "receive_loop w (startup w) [] = Some (startup w @ [Receive 10 NoMessages], Inr [])"
    by (subst receive_loop.simps) (simp add: assms)
  have m: "main w = Some (close_step bound (startup w @ [Receive 10 NoMessages]))"
    by (simp add: main_def cs st rl)
  show ?thesis
  proof (cases bound)
    case True
    let ?tr = "startup w @ [Receive 10 NoMessages, CloseCursor, CloseConnection, Print OutClosed]"
    have "main w = Some (?tr, None)" using m True by (simp add: close_step_def)
    moreover have "list_all (\<lambda>e. \<not> is_work e) ?tr" using startup_no_work [of w] by simp
    moreover have "delete_calls ?tr = []"
      by (simp add: delete_calls_append startup_inert(3))
    moreover have "\<forall>table. table_after table ?tr = table"
      by (simp add: table_after_def startup_inert(4))
    ultimately show ?thesis by blast
  next
    case False
    let ?tr = "startup w @ [Receive 10 NoMessages]"
    have "main w = Some (?tr, Some NameError)" using m False by (simp add: close_step_def)
    moreover have "list_all (\<lambda>e. \<not> is_work e) ?tr" using startup_no_work [of w] by simp
    moreover have "delete_calls ?tr = []"
      by (simp add: delete_calls_append startup_inert(3))
    moreover have "\<forall>table. table_after table ?tr = table"
      by (simp add: table_after_def startup_inert(4))
    ultimately show ?thesis by blast
  qed
qed

text \<open>The run on the empty queue.\<close>

theorem empty_cycle_changes_nothing_witness:
  "receive_message idle (startup idle) = NoMessages
   \<and> (\<exists>tr r. main idle = Some (tr, r) \<and> list_all (\<lambda>e. \<not> is_work e) tr
           \<and> delete_calls tr = [] \<and> (\<forall>table. table_after table tr = table))"
proof -
  have h: "receive_message idle (startup idle) = NoMessages" by (simp add: idle_def)
  show ?thesis by (rule conjI [OF h empty_cycle_changes_nothing [OF h]])
qed

text \<open>
  C1. In a run that ends, there is a number \<open>j\<close> such that \<open>delete_message\<close> was called
  for exactly the first \<open>j\<close> received messages, in order, and the rows committed to the
  table are exactly the records of these same \<open>j\<close> messages, in order: the delete of a
  message is called if and only if the insert of its record was committed. Moreover
  every call of \<open>delete_message\<close> comes right after a commit that succeeded, itself right
  after an insert that succeeded.
\<close>

theorem delete_iff_insert_committed:
  assumes "main w = Some (tr, r)"
  shows "\<exists>j\<le>length (received tr).
           delete_calls tr = map ReceiptHandle (take j (received tr))
           \<and> list_all2 (row_for w) (table_after [] tr) (take j (received tr))
           \<and> acks_follow_commits tr"
proof -
  from main_shape [OF assms] obtain rs seg closing where s:
    "tr = startup w @ rs @ seg @ closing" "list_all is_receive10 rs"
    "loop_post w (received rs) seg"
    "closing = [CloseCursor, CloseConnection, Print OutClosed] \<or> closing = []"
    by (auto split: if_splits)
  from s(3) have nr: "list_all (\<lambda>e. \<not> is_receive e) seg"
    and ack: "\<forall>st. st \<noteq> Violated \<longrightarrow> foldl ack_step st seg \<noteq> Violated"
    by (simp_all add: loop_post_def)
  from s(3) obtain j where j: "j \<le> length (received rs)"
    "delete_calls seg = map ReceiptHandle (take j (received rs))"
    "\<forall>table. \<exists>rows. foldl store_step ([], table) seg = ([], table @ rows)
        \<and> list_all2 (row_for w) rows (take j (received rs))"
    unfolding loop_post_def by blast
  from j(3) obtain rows where rows: "foldl store_step ([], []) seg = ([], [] @ rows)"
    "list_all2 (row_for w) rows (take j (received rs))"
    by blast
  have rc: "received closing = []" and dc: "delete_calls closing = []"
    and sc: "foldl store_step ([], rows) closing = ([], rows)"
    using s(4) by auto
  have rec: "received tr = received rs"
    by (simp add: s(1) received_append startup_inert(2) no_receive_received [OF nr] rc)
  have del: "delete_calls tr = delete_calls seg"
    by (simp add: s(1) delete_calls_append startup_inert(3) receives_no_delete [OF s(2)] dc)
  have tab: "table_after [] tr = rows"
    using rows(1) sc
    by (simp add: s(1) table_after_def startup_inert(4) receives_store [OF s(2)])
  have a1: "foldl ack_step Idle (startup w @ rs) \<noteq> Violated"
    using receives_ack [OF s(2) startup_inert(5) [of w]] by simp
  have a2: "foldl ack_step Idle (startup w @ rs @ seg) \<noteq> Violated"
    using ack a1 by simp
  have a3: "acks_follow_commits tr"
    using s(4) a2 closing_ack [OF a2] by (auto simp add: acks_follow_commits_def s(1))
  show ?thesis
    using j(1,2) rows(2) rec del tab a3 by (intro exI [of _ j]) simp
qed

text \<open>The run on the batch of three messages: \<open>j\<close> is one.\<close>

theorem delete_iff_insert_committed_witness:
  "main batch3 =
     Some ([Connect True, Print OutConnected,
            Execute alter_column_query [] (Some 19000), Commit True, Print OutColumnAltered,
            Receive 10 (Messages [\<lparr>Body = py ''{}'', ReceiptHandle = py ''h1''\<rparr>,
                                  \<lparr>Body = py ''{'', ReceiptHandle = py ''h2''\<rparr>,
                                  \<lparr>Body = py ''{}'', ReceiptHandle = py ''h3''\<rparr>]),
            Receive 10 NoMessages,
            Parse (py ''{}'') True, Print (OutMasked (JObj [])),
            Execute insert_query [JNull, JNull, JNull, JNull, JNull, JNull] (Some 19000),
            Commit True, Delete (py ''h1'') True,
            Parse (py ''{'') False],
           Some JSONDecodeError)
   \<and> (\<exists>j\<le>length (received
          [Connect True, Print OutConnected,
            Execute alter_column_query [] (Some 19000), Commit True, Print OutColumnAltered,
            Receive 10 (Messages [\<lparr>Body = py ''{}'', ReceiptHandle = py ''h1''\<rparr>,
                                  \<lparr>Body = py ''{'', ReceiptHandle = py ''h2''\<rparr>,
                                  \<lparr>Body = py ''{}'', ReceiptHandle = py ''h3''\<rparr>]),
            Receive 10 NoMessages,
            Parse (py ''{}'') True, Print (OutMasked (JObj [])),
            Execute insert_query [JNull, JNull, JNull, JNull, JNull, JNull] (Some 19000),
            Commit True, Delete (py ''h1'') True,
            Parse (py ''{'') False]).
         delete_calls
          [Connect True, Print OutConnected,
            Execute alter_column_query [] (Some 19000), Commit True, Print OutColumnAltered,
            Receive 10 (Messages [\<lparr>Body = py ''{}'', ReceiptHandle = py ''h1''\<rparr>,
                                  \<lparr>Body = py ''{'', ReceiptHandle = py ''h2''\<rparr>,
                                  \<lparr>Body = py ''{}'', ReceiptHandle = py ''h3''\<rparr>]),
            Receive 10 NoMessages,
            Parse (py ''{}'') True, Print (OutMasked (JObj [])),
            Execute insert_query [JNull, JNull, JNull, JNull, JNull, JNull] (Some 19000),
            Commit True, Delete (py ''h1'') True,
            Parse (py ''{'') False]
         = map ReceiptHandle (take j (received
          [Connect True, Print OutConnected,
            Execute alter_column_query [] (Some 19000), Commit True, Print OutColumnAltered,
            Receive 10 (Messages [\<lparr>Body = py ''{}'', ReceiptHandle = py ''h1''\<rparr>,
                                  \<lparr>Body = py ''{'', ReceiptHandle = py ''h2''\<rparr>,
                                  \<lparr>Body = py ''{}'', ReceiptHandle = py ''h3''\<rparr>]),
            Receive 10 NoMessages,
            Parse (py ''{}'') True, Print (OutMasked (JObj [])),
            Execute insert_query [JNull, JNull, JNull, JNull, JNull, JNull] (Some 19000),
            Commit True, Delete (py ''h1'') True,
            Parse (py ''{'') False]))
         \<and> list_all2 (row_for batch3) (table_after []
          [Connect True, Print OutConnected,
            Execute alter_column_query [] (Some 19000), Commit True, Print OutColumnAltered,
            Receive 10 (Messages [\<lparr>Body = py ''{}'', ReceiptHandle = py ''h1''\<rparr>,
                                  \<lparr>Body = py ''{'', ReceiptHandle = py ''h2''\<rparr>,
                                  \<lparr>Body = py ''{}'', ReceiptHandle = py ''h3''\<rparr>]),
            Receive 10 NoMessages,
            Parse (py ''{}'') True, Print (OutMasked (JObj [])),
            Execute insert_query [JNull, JNull, JNull, JNull, JNull, JNull] (Some 19000),
            Commit True, Delete (py ''h1'') True,
            Parse (py ''{'') False])
           (take j (received
          [Connect True, Print OutConnected,
            Execute alter_column_query [] (Some 19000), Commit True, Print OutColumnAltered,
            Receive 10 (Messages [\<lparr>Body = py ''{}'', ReceiptHandle = py ''h1''\<rparr>,
                                  \<lparr>Body = py ''{'', ReceiptHandle = py ''h2''\<rparr>,
                                  \<lparr>Body = py ''{}'', ReceiptHandle = py ''h3''\<rparr>]),
            Receive 10 NoMessages,
            Parse (py ''{}'') True, Print (OutMasked (JObj [])),
            Execute insert_query [JNull, JNull, JNull, JNull, JNull, JNull] (Some 19000),
            Commit True, Delete (py ''h1'') True,
            Parse (py ''{'') False]))
         \<and> acks_follow_commits
          [Connect True, Print OutConnected,
            Execute alter_column_query [] (Some 19000), Commit True, Print OutColumnAltered,
            Receive 10 (Messages [\<lparr>Body = py ''{}'', ReceiptHandle = py ''h1''\<rparr>,
                                  \<lparr>Body = py ''{'', ReceiptHandle = py ''h2''\<rparr>,
                                  \<lparr>Body = py ''{}'', ReceiptHandle = py ''h3''\<rparr>]),
            Receive 10 NoMessages,
            Parse (py ''{}'') True, Print (OutMasked (JObj [])),
            Execute insert_query [JNull, JNull, JNull, JNull, JNull, JNull] (Some 19000),
            Commit True, Delete (py ''h1'') True,
            Parse (py ''{'') False])"
  by (rule conjI [OF batch3_run delete_iff_insert_committed [OF batch3_run]])




end
